theory Spec2Isabelle
  imports Complex_Main "HOL-Library.Word"
begin

section \<open>Data model\<close>

text \<open>
  A shallow embedding of the pyslsk client: the frame codec (protocol.py), the server
  connection (connection.py), the message dispatcher and the wait primitive (client.py),
  the login handshake (auth.py), the search generator (search.py) and the download
  manager (download.py).

  Python \<open>bytes\<close> are lists of 8-bit words. A Python \<open>str\<close> is a sequence
      of Unicode code
  points, here a list of naturals. Python integers are unbounded: lengths and offsets are
  naturals, an integer handed in by a caller is an \<open>int\<close>.
\<close>

type_synonym byte = "8 word"
type_synonym bytes = "byte list"
type_synonym str = "nat list"

text \<open>The exceptions the modelled code raises or lets through.\<close>

datatype error =
    StructError              \<comment> \<open>struct.error: a value does not fit its format\<close>
  | UnicodeEncodeError       \<comment> \<open>str.encode on a lone surrogate\<close>
  | ValueError               \<comment> \<open>raised by the codec on short or malformed
      data\<close>
  | TimeoutError             \<comment> \<open>asyncio.TimeoutError from asyncio.wait_for\<close>
  | ConnectionClosedError
  | AuthenticationError
  | ProtocolError
  | OSError                  \<comment> \<open>a socket-level failure\<close>
  | RuntimeError             \<comment> \<open>an async generator entered while it is
      running\<close>
  | CancelledError           \<comment> \<open>asyncio.CancelledError\<close>

record message =
  code :: nat
  payload :: bytes

section \<open>Frame codec (protocol.py)\<close>

subsection \<open>struct.pack and struct.unpack_from\<close>

text \<open>Big-endian value of a byte span.\<close>

definition be_nat :: "bytes \<Rightarrow> nat" where
  "be_nat bs = foldl (\<lambda>acc b. acc * 256 + unat b) 0 bs"

text \<open>\<open>struct.pack("!I", n)\<close>, \<open>struct.pack("!H", n)\<close> and
    \<open>struct.pack("!B", n)\<close>: the
  value must fit the format, otherwise struct.error. The two wider formats are only ever
  given a \<open>len(...)\<close>, which is never negative; the one-byte format is given the
      caller's
  integer.\<close>

definition pack_I :: "nat \<Rightarrow> error + bytes" where
  "pack_I n =
     (if n \<le> 4294967295
      then Inr [of_nat (n div 16777216), of_nat (n div 65536), of_nat (n div 256), of_nat n]
      else Inl StructError)"

definition pack_H :: "nat \<Rightarrow> error + bytes" where
  "pack_H n =
     (if n \<le> 65535 then Inr [of_nat (n div 256), of_nat n] else Inl StructError)"

definition pack_B :: "int \<Rightarrow> error + bytes" where
  "pack_B n = (if 0 \<le> n \<and> n \<le> 255 then Inr [of_int n] else Inl StructError)"

text \<open>\<open>struct.unpack_from(fmt, data, offset)\<close>. Every call in the source comes
    after a
  check that the bytes are there, so the span read is always complete.\<close>

definition unpack_from_I :: "bytes \<Rightarrow> nat \<Rightarrow> nat" where
  "unpack_from_I data offset = be_nat (take 4 (drop offset data))"

definition unpack_from_H :: "bytes \<Rightarrow> nat \<Rightarrow> nat" where
  "unpack_from_H data offset = be_nat (take 2 (drop offset data))"

definition unpack_from_B :: "bytes \<Rightarrow> nat \<Rightarrow> nat" where
  "unpack_from_B data offset = be_nat (take 1 (drop offset data))"

subsection \<open>pack_message and parse_message\<close>

definition pack_message :: "int \<Rightarrow> bytes \<Rightarrow> error + bytes" where
  "pack_message c pl =
     (let len = 1 + length pl in
      case pack_I len of
        Inl e \<Rightarrow> Inl e
      | Inr lb \<Rightarrow> (case pack_B c of Inl e \<Rightarrow> Inl e | Inr cb \<Rightarrow>
          Inr (lb @ cb @ pl)))"

text \<open>\<open>raw[5 : 5 + (length - 1)]\<close>: the slice bounds are Python integers, so
    \<open>length - 1\<close>
  is \<open>-1\<close> when the length field is zero, and the slice \<open>raw[5:4]\<close> is
      empty.\<close>

definition parse_message :: "bytes \<Rightarrow> error + message" where
  "parse_message raw =
     (if length raw < 5 then Inl ValueError
      else
        let len = unpack_from_I raw 0;
            c = unpack_from_B raw 4
        in Inr \<lparr>code = c, payload = take (len - 1) (drop 5 raw)\<rparr>)"

subsection \<open>iter_frames\<close>

text \<open>The generator is run to its end by the receive loop, so the model returns the
  frames it yields, in order, and the buffer it leaves behind. Each turn of the loop
  removes at least four bytes, which is why it ends.\<close>

function iter_frames :: "bytes \<Rightarrow> bytes list \<times> bytes" where
  "iter_frames buffer =
     (if length buffer < 4 then ([], buffer)
      else
        let len = unpack_from_I buffer 0 in
        if length buffer < 4 + len then ([], buffer)
        else
          case iter_frames (drop (4 + len) buffer) of
            (frames, rest) \<Rightarrow> (take (4 + len) buffer # frames, rest))"
  by pat_completeness auto
termination
  by (relation "measure length") auto

declare iter_frames.simps [simp del]

text \<open>The two stop conditions of \<open>iter_frames\<close>: no length prefix yet, or a
    frame that is
  not complete yet.\<close>

definition incomplete :: "bytes \<Rightarrow> bool" where
  "incomplete b = (length b < 4 \<or> length b < 4 + unpack_from_I b 0)"

text \<open>What the receive loop does with the bytes of successive reads:
  \<open>self._recv_buffer.extend(chunk)\<close>, then
      \<open>iter_frames(self._recv_buffer)\<close>. The result is
  every frame yielded, in order, and the buffer after the last read.\<close>

fun feed :: "bytes \<Rightarrow> bytes list \<Rightarrow> bytes list \<times> bytes" where
  "feed buffer [] = ([], buffer)"
| "feed buffer (chunk # chunks) =
     (case iter_frames (buffer @ chunk) of
        (frames, buffer') \<Rightarrow>
          (case feed buffer' chunks of (later, rest) \<Rightarrow> (frames @ later, rest)))"

section \<open>Server connection (connection.py)\<close>

text \<open>
  The receive task of a connection: not created yet, running, returned, or ended by a
  cancellation. The two callbacks the connection is built with are recorded by their
  calls: the messages handed to \<open>on_message\<close> and the arguments handed to
      \<open>on_disconnect\<close>,
  both in call order.
\<close>

datatype task = NoTask | Running | Done | TaskCancelled

record ServerConnection =
  writer :: bool                             \<comment> \<open>\<open>self._writer\<close> is
      set\<close>
  task :: task
  recv_buffer :: bytes
  closed :: bool
  on_message_calls :: "message list"
  on_disconnect_calls :: "error option list"


text \<open>The class of an exception: asyncio.CancelledError derives from
    \<open>BaseException\<close>, every
  other error here from \<open>Exception\<close>. This is what \<open>except Exception\<close> and
  \<open>contextlib.suppress(Exception)\<close> test.\<close>

definition is_Exception :: "error \<Rightarrow> bool" where
  "is_Exception e = (e \<noteq> CancelledError)"


text \<open>The \<open>for frame in iter_frames(...)\<close> loop of \<open>_recv_loop\<close>.
    The generator is lazy: when
  \<open>parse_message\<close> raises, the frames not yet yielded are still in the buffer.\<close>

fun deliver_frames ::
  "bytes list \<Rightarrow> bytes \<Rightarrow> ServerConnection \<Rightarrow> error option
      \<times> ServerConnection" where
  "deliver_frames [] rest c = (None, c\<lparr>recv_buffer := rest\<rparr>)"
| "deliver_frames (frame # frames) rest c =
     (case parse_message frame of
        Inl e \<Rightarrow> (Some e, c\<lparr>recv_buffer := concat frames @ rest\<rparr>)
      | Inr msg \<Rightarrow>
          deliver_frames frames rest (c\<lparr>on_message_calls := on_message_calls c @
              [msg]\<rparr>))"

text \<open>The \<open>while True\<close> loop, over the outcomes of the successive \<open>await
    reader.read(4096)\<close>
  (an error raised there, a cancellation of the task among them, or the bytes read). The
  loop leaves only by an exception, returned as \<open>Some e\<close>; \<open>None\<close> means
      the reads given are
  used up and the loop waits in \<open>read\<close>.\<close>

fun recv_reads ::
  "(error + bytes) list \<Rightarrow> ServerConnection \<Rightarrow> error option \<times>
      ServerConnection" where
  "recv_reads [] c = (None, c)"
| "recv_reads (Inl e # reads) c = (Some e, c)"
| "recv_reads (Inr chunk # reads) c =
     (if chunk = [] then (Some ConnectionClosedError, c)
      else
        case iter_frames (recv_buffer c @ chunk) of
          (frames, rest) \<Rightarrow>
            (case deliver_frames frames rest c of
               (Some e, c') \<Rightarrow> (Some e, c')
             | (None, c') \<Rightarrow> recv_reads reads c'))"

text \<open>\<open>_recv_loop\<close>. The \<open>except Exception\<close> clause keeps an
    exception of that class; the
  \<open>finally\<close> clause calls \<open>on_disconnect(exc)\<close> and sets
      \<open>_closed\<close>, and the task has then
  returned. A cancellation is not caught: \<open>exc\<close> is still \<open>None\<close> when the
      \<open>finally\<close> clause
  runs, and the task ends cancelled.\<close>

definition recv_loop :: "(error + bytes) list \<Rightarrow> ServerConnection \<Rightarrow>
    ServerConnection" where
  "recv_loop reads c =
     (case recv_reads reads c of
        (None, c') \<Rightarrow> c'
      | (Some e, c') \<Rightarrow>
          if is_Exception e
          then c'\<lparr>on_disconnect_calls := on_disconnect_calls c' @ [Some e],
                  closed := True, task := Done\<rparr>
          else c'\<lparr>on_disconnect_calls := on_disconnect_calls c' @ [None],
                  closed := True, task := TaskCancelled\<rparr>)"

text \<open>
  \<open>close\<close>, with the error it raises (if any) and the connection it leaves.

  \<^item> \<open>if self._writer:\<close> the writer is closed and \<open>wait_closed\<close>
      awaited. While \<open>close\<close> is
    suspended there a running receive task goes on: \<open>reads\<close> are the outcomes of the
        reads
    it completes in that time (the end of stream that a closed transport reports, if the
    task gets to see it). An exception of \<open>wait_closed\<close> is dropped.
  \<^item> \<open>if self._task:\<close> \<open>cancel()\<close> does nothing to a task that has
      ended. A task still
    waiting in \<open>read\<close> is cancelled there. Then \<open>await self._task\<close>
        returns for a task that
    returned and raises \<open>CancelledError\<close> for a task that ended cancelled, which
    \<open>suppress(Exception)\<close> lets through: \<open>close\<close> ends there.
  \<^item> Otherwise \<open>on_disconnect(None)\<close> is called and \<open>_closed\<close> is set.
\<close>

definition close ::
  "(error + bytes) list \<Rightarrow> ServerConnection \<Rightarrow> error option \<times>
      ServerConnection" where
  "close reads c =
     (let c1 = (if writer c \<and> task c = Running then recv_loop reads c else c);
          c2 = (if task c1 = Running then recv_loop [Inl CancelledError] c1 else c1)
      in if task c2 = TaskCancelled \<and> \<not> is_Exception CancelledError
         then (Some CancelledError, c2)
         else (None, c2\<lparr>on_disconnect_calls := on_disconnect_calls c2 @ [None],
                            closed := True\<rparr>))"

subsection \<open>Strings: UTF-8 and the 2-byte length prefix\<close>

text \<open>\<open>str.encode("utf-8")\<close>, one code point at a time. A lone surrogate cannot
    be encoded.
  A Python string holds no value from \<open>0x110000\<close> on; the model refuses one as
      well.\<close>

definition encode_cp :: "nat \<Rightarrow> error + bytes" where
  "encode_cp c =
     (if c < 128 then Inr [of_nat c]
      else if c < 2048 then Inr [of_nat (192 + c div 64), of_nat (128 + c mod 64)]
      else if 55296 \<le> c \<and> c \<le> 57343 then Inl UnicodeEncodeError
      else if c < 65536 then
        Inr [of_nat (224 + c div 4096), of_nat (128 + c div 64 mod 64), of_nat (128 + c mod 64)]
      else if c < 1114112 then
        Inr [of_nat (240 + c div 262144), of_nat (128 + c div 4096 mod 64),
             of_nat (128 + c div 64 mod 64), of_nat (128 + c mod 64)]
      else Inl UnicodeEncodeError)"

fun encode_utf8 :: "str \<Rightarrow> error + bytes" where
  "encode_utf8 [] = Inr []"
| "encode_utf8 (c # cs) =
     (case encode_cp c of
        Inl e \<Rightarrow> Inl e
      | Inr b \<Rightarrow> (case encode_utf8 cs of Inl e \<Rightarrow> Inl e | Inr bs
          \<Rightarrow> Inr (b @ bs)))"

text \<open>\<open>bytes.decode("utf-8", errors="replace")\<close>: a well-formed sequence gives
    its code
  point; a malformed one gives U+FFFD for the longest prefix of it that could start a
  well-formed sequence (at least one byte), and decoding resumes after that prefix.
  \<open>utf8_first\<close> returns the first code point and the number of bytes it stands
      for.\<close>

definition is_continuation :: "byte \<Rightarrow> bool" where
  "is_continuation b = (128 \<le> unat b \<and> unat b \<le> 191)"

definition utf8_first :: "bytes \<Rightarrow> nat \<times> nat" where
  "utf8_first bs =
     (case bs of
        [] \<Rightarrow> (0, 0)
      | b0 # r \<Rightarrow>
          let n = unat b0 in
          if n < 128 then (n, 1)
          else if 194 \<le> n \<and> n \<le> 223 then
            (case r of
               [] \<Rightarrow> (65533, 1)
             | b1 # r1 \<Rightarrow>
                 if is_continuation b1 then ((n - 192) * 64 + (unat b1 - 128), 2)
                 else (65533, 1))
          else if 224 \<le> n \<and> n \<le> 239 then
            (case r of
               [] \<Rightarrow> (65533, 1)
             | b1 # r1 \<Rightarrow>
                 if \<not> ((if n = 224 then 160 else 128) \<le> unat b1
                        \<and> unat b1 \<le> (if n = 237 then 159 else 191))
                 then (65533, 1)
                 else
                   (case r1 of
                      [] \<Rightarrow> (65533, 2)
                    | b2 # r2 \<Rightarrow>
                        if is_continuation b2
                        then ((n - 224) * 4096 + (unat b1 - 128) * 64 + (unat b2 - 128), 3)
                        else (65533, 2)))
          else if 240 \<le> n \<and> n \<le> 244 then
            (case r of
               [] \<Rightarrow> (65533, 1)
             | b1 # r1 \<Rightarrow>
                 if \<not> ((if n = 240 then 144 else 128) \<le> unat b1
                        \<and> unat b1 \<le> (if n = 244 then 143 else 191))
                 then (65533, 1)
                 else
                   (case r1 of
                      [] \<Rightarrow> (65533, 2)
                    | b2 # r2 \<Rightarrow>
                        if \<not> is_continuation b2 then (65533, 2)
                        else
                          (case r2 of
                             [] \<Rightarrow> (65533, 3)
                           | b3 # r3 \<Rightarrow>
                               if is_continuation b3
                               then ((n - 240) * 262144 + (unat b1 - 128) * 4096
                                     + (unat b2 - 128) * 64 + (unat b3 - 128), 4)
                               else (65533, 3))))
          else (65533, 1))"

function decode_utf8_replace :: "bytes \<Rightarrow> str" where
  "decode_utf8_replace [] = []"
| "decode_utf8_replace (b # bs) =
     (case utf8_first (b # bs) of
        (c, n) \<Rightarrow> c # decode_utf8_replace (drop (n - 1) bs))"
  by pat_completeness auto
termination
  by (relation "measure length") auto

definition pack_string :: "str \<Rightarrow> error + bytes" where
  "pack_string s =
     (case encode_utf8 s of
        Inl e \<Rightarrow> Inl e
      | Inr data \<Rightarrow>
          (case pack_H (length data) of Inl e \<Rightarrow> Inl e | Inr lb \<Rightarrow> Inr (lb @
              data)))"

definition unpack_string :: "bytes \<Rightarrow> nat \<Rightarrow> error + (str \<times> nat)" where
  "unpack_string data offset =
     (if offset + 2 > length data then Inl ValueError
      else
        let ln = unpack_from_H data offset;
            offset = offset + 2
        in if offset + ln > length data then Inl ValueError
           else Inr (decode_utf8_replace (take ln (drop offset data)), offset + ln))"

subsection \<open>Message codes (constants.py) and the request builders\<close>

definition MSG_LOGIN :: nat where "MSG_LOGIN = 1"
definition MSG_LOGIN_OK :: nat where "MSG_LOGIN_OK = 2"
definition MSG_LOGIN_ERROR :: nat where "MSG_LOGIN_ERROR = 3"
definition MSG_SEARCH_REQUEST :: nat where "MSG_SEARCH_REQUEST = 16"
definition MSG_SEARCH_RESULT :: nat where "MSG_SEARCH_RESULT = 17"
definition MSG_DOWNLOAD_REQUEST :: nat where "MSG_DOWNLOAD_REQUEST = 48"

definition build_login :: "str \<Rightarrow> str \<Rightarrow> error + bytes" where
  "build_login username password =
     (case pack_string username of
        Inl e \<Rightarrow> Inl e
      | Inr u \<Rightarrow>
          (case pack_string password of
             Inl e \<Rightarrow> Inl e
           | Inr p \<Rightarrow> pack_message (int MSG_LOGIN) (u @ p)))"

definition build_search :: "str \<Rightarrow> error + bytes" where
  "build_search query =
     (case pack_string query of
        Inl e \<Rightarrow> Inl e
      | Inr q \<Rightarrow> pack_message (int MSG_SEARCH_REQUEST) q)"

definition build_download_request :: "str \<Rightarrow> str \<Rightarrow> error + bytes" where
  "build_download_request user remote_path =
     (case pack_string user of
        Inl e \<Rightarrow> Inl e
      | Inr u \<Rightarrow>
          (case pack_string remote_path of
             Inl e \<Rightarrow> Inl e
           | Inr p \<Rightarrow> pack_message (int MSG_DOWNLOAD_REQUEST) (u @ p)))"

section \<open>Message dispatcher and wait primitive (client.py)\<close>

text \<open>
  An \<open>asyncio.Future\<close> is pending, holds a result, or is cancelled;
      \<open>done()\<close> is true in the
  last two states. Futures and listener callbacks are Python objects compared by identity:
  the model names each by a number. The client's \<open>futures\<close> field is the state of every
  future created so far, \<open>next_future\<close> the name the next one gets.
  \<open>listener_calls\<close> records which callback was called with which message, in call order.
\<close>

datatype future = Pending | Result message | Cancelled

fun fut_done :: "future \<Rightarrow> bool" where
  "fut_done Pending = False"
| "fut_done (Result m) = True"
| "fut_done Cancelled = True"

type_synonym waiter = "(message \<Rightarrow> bool) \<times> nat"

record SoulseekClient =
  simulate :: bool
  conn :: bool                               \<comment> \<open>\<open>self._conn\<close> is
      set\<close>
  sent :: "bytes list"                      \<comment> \<open>what \<open>self._conn.send\<close>
      was given\<close>
  message_waiters :: "waiter list"
  futures :: "nat \<Rightarrow> future"
  next_future :: nat
  listeners :: "nat \<rightharpoonup> nat list"
  listener_calls :: "(nat \<times> message) list"

definition SoulseekClient_init :: SoulseekClient where
  "SoulseekClient_init =
     \<lparr>simulate = False, conn = False, sent = [], message_waiters = [],
      futures = (\<lambda>f. Cancelled), next_future = 0, listeners = Map.empty,
      listener_calls = []\<rparr>"

definition send :: "bytes \<Rightarrow> SoulseekClient \<Rightarrow> error + SoulseekClient" where
  "send data st =
     (if simulate st then Inr st
      else if \<not> conn st then Inl ConnectionClosedError
      else Inr (st\<lparr>sent := sent st @ [data]\<rparr>))"

text \<open>\<open>self._message_waiters.remove((pred, fut))\<close>: the first entry equal to the
    pair goes.
  Every entry is made by \<open>_wait_for_message\<close> with a future of its own, so the entry is
  found by its future.\<close>

fun remove_waiter :: "nat \<Rightarrow> waiter list \<Rightarrow> waiter list" where
  "remove_waiter fut [] = []"
| "remove_waiter fut ((p, f) # ws) = (if f = fut then ws else (p, f) # remove_waiter fut ws)"

text \<open>The first loop of \<open>_dispatch_message\<close>, over a copy of the waiter list:
    every waiter
  whose future is not done and whose predicate accepts the message gets the message as
  its result and is removed from the list. The loop has no \<open>break\<close>.\<close>

fun notify_waiters :: "message \<Rightarrow> waiter list \<Rightarrow> SoulseekClient
    \<Rightarrow> SoulseekClient" where
  "notify_waiters msg [] st = st"
| "notify_waiters msg ((pred, fut) # ws) st =
     notify_waiters msg ws
       (if \<not> fut_done (futures st fut) \<and> pred msg
        then st\<lparr>futures := (futures st)(fut := Result msg),
                message_waiters := remove_waiter fut (message_waiters st)\<rparr>
        else st)"

text \<open>The test of the waiter loop: the future is not done and the predicate accepts.\<close>

definition accepts :: "message \<Rightarrow> SoulseekClient \<Rightarrow> waiter \<Rightarrow>
    bool" where
  "accepts msg st w = (\<not> fut_done (futures st (snd w)) \<and> fst w msg)"

text \<open>\<open>_dispatch_message\<close>: waiters first, then every listener registered for
    the message's
  code, in registration order. A listener that raises is reported and the loop goes on.\<close>

definition dispatch_message :: "message \<Rightarrow> SoulseekClient \<Rightarrow> SoulseekClient"
    where
  "dispatch_message msg st =
     (let st' = notify_waiters msg (message_waiters st) st;
          cbs = (case listeners st' (code msg) of None \<Rightarrow> [] | Some l \<Rightarrow> l)
      in st'\<lparr>listener_calls := listener_calls st' @ map (\<lambda>cb. (cb, msg))
          cbs\<rparr>)"

definition register_listener :: "nat \<Rightarrow> nat \<Rightarrow> SoulseekClient \<Rightarrow>
    SoulseekClient" where
  "register_listener c callback st =
     st\<lparr>listeners := (listeners st)
           (c \<mapsto> (case listeners st c of None \<Rightarrow> [] | Some l \<Rightarrow> l) @
               [callback])\<rparr>"

definition unregister_listener :: "nat \<Rightarrow> nat \<Rightarrow> SoulseekClient
    \<Rightarrow> SoulseekClient" where
  "unregister_listener c callback st =
     (case listeners st c of
        None \<Rightarrow> st
      | Some l \<Rightarrow> st\<lparr>listeners := (listeners st)(c \<mapsto> filter (\<lambda>x.
          x \<noteq> callback) l)\<rparr>)"

text \<open>\<open>_wait_for_message\<close>, in the three parts its \<open>await\<close> cuts it
    into: a new future is
  appended with the predicate; messages are dispatched while the caller waits; then the
  caller resumes, with the result if the future has one, and with
      \<open>asyncio.TimeoutError\<close>
  if the timeout came first (\<open>wait_for\<close> cancels the future). The
      \<open>finally\<close> clause drops the
  future's entry either way.\<close>

definition wait_begin :: "(message \<Rightarrow> bool) \<Rightarrow> SoulseekClient \<Rightarrow>
    nat \<times> SoulseekClient" where
  "wait_begin predicate st =
     (let fut = next_future st
      in (fut, st\<lparr>futures := (futures st)(fut := Pending),
                  next_future := Suc fut,
                  message_waiters := message_waiters st @ [(predicate, fut)]\<rparr>))"

definition wait_end :: "nat \<Rightarrow> SoulseekClient \<Rightarrow> (error + message) \<times>
    SoulseekClient" where
  "wait_end fut st =
     (let ws = filter (\<lambda>(p, f). f \<noteq> fut) (message_waiters st)
      in case futures st fut of
           Result msg \<Rightarrow> (Inr msg, st\<lparr>message_waiters := ws\<rparr>)
         | Pending \<Rightarrow>
             (Inl TimeoutError,
              st\<lparr>futures := (futures st)(fut := Cancelled), message_waiters := ws\<rparr>)
         | Cancelled \<Rightarrow> (Inl TimeoutError, st\<lparr>message_waiters := ws\<rparr>))"

text \<open>What \<open>_wait_for_message\<close> keeps true of the waiter list: every entry has a
    future of
  its own, created before the next one to come.\<close>

definition waiters_ok :: "SoulseekClient \<Rightarrow> bool" where
  "waiters_ok st =
     (distinct (map snd (message_waiters st))
      \<and> (\<forall>w \<in> set (message_waiters st). snd w < next_future st))"

text \<open>The whole call, with the messages the receive loop dispatches before the
    timeout.\<close>

definition wait_for_message ::
  "(message \<Rightarrow> bool) \<Rightarrow> message list \<Rightarrow> SoulseekClient
   \<Rightarrow> (error + message) \<times> SoulseekClient" where
  "wait_for_message predicate msgs st =
     (case wait_begin predicate st of
        (fut, st') \<Rightarrow> wait_end fut (fold dispatch_message msgs st'))"

section \<open>Login handshake (auth.py)\<close>

text \<open>\<open>lambda m: m["code"] in (MSG_LOGIN_OK, MSG_LOGIN_ERROR)\<close>\<close>

definition login_reply :: "message \<Rightarrow> bool" where
  "login_reply m = (code m = MSG_LOGIN_OK \<or> code m = MSG_LOGIN_ERROR)"

text \<open>A predicate on the message code, and two clients with waits registered on the
  codes of the login replies, used as concrete inputs below.\<close>

definition code_is :: "nat \<Rightarrow> message \<Rightarrow> bool" where
  "code_is c m = (code m = c)"

definition two_waits :: SoulseekClient where
  "two_waits =
     snd (wait_begin login_reply (snd (wait_begin (code_is 2) SoulseekClient_init)))"

definition three_waits :: SoulseekClient where
  "three_waits = snd (wait_begin (code_is 3) two_waits)"

text \<open>\<open>AuthManager.authenticate\<close>, with the messages dispatched within the
    timeout. The
  lock is released on every path and holds no state the result depends on.\<close>

definition authenticate ::
  "str \<Rightarrow> str \<Rightarrow> message list \<Rightarrow> SoulseekClient \<Rightarrow>
      (error + bool) \<times> SoulseekClient" where
  "authenticate username password msgs st =
     (case build_login username password of
        Inl e \<Rightarrow> (Inl e, st)
      | Inr data \<Rightarrow>
          (case send data st of
             Inl e \<Rightarrow> (Inl e, st)
           | Inr st1 \<Rightarrow>
               (case wait_for_message login_reply msgs st1 of
                  (Inl e, st2) \<Rightarrow> (Inl e, st2)
                | (Inr msg, st2) \<Rightarrow>
                    if code msg = MSG_LOGIN_OK then (Inr True, st2)
                    else if code msg = MSG_LOGIN_ERROR then (Inl AuthenticationError, st2)
                    else (Inl ProtocolError, st2))))"

section \<open>Search (protocol.py, types.py, search.py)\<close>

subsection \<open>decode_search_result\<close>

text \<open>The dictionary \<open>decode_search_result\<close> returns, and the two dataclasses of
    types.py
  the listener builds from it.\<close>

record decoded =
  d_query :: str
  d_user :: str
  d_folder :: str
  d_files :: "(str \<times> nat) list"              \<comment> \<open>filename and size of each
      entry\<close>

record SearchResultFile =
  filename :: str
  fsize :: nat
  bitrate :: "nat option"
  length_seconds :: "nat option"

record SearchResult =
  query :: str
  user :: str
  folder :: str
  files :: "SearchResultFile list"
  user_host :: "str option"
  user_port :: "nat option"
  raw_payload :: "bytes option"

text \<open>The \<open>for _ in range(file_count)\<close> loop.\<close>

fun decode_files :: "nat \<Rightarrow> bytes \<Rightarrow> nat \<Rightarrow> error + (str \<times>
    nat) list" where
  "decode_files 0 pl offset = Inr []"
| "decode_files (Suc n) pl offset =
     (case unpack_string pl offset of
        Inl e \<Rightarrow> Inl e
      | Inr (name, offset') \<Rightarrow>
          if offset' + 4 > length pl then Inl ValueError
          else
            (case decode_files n pl (offset' + 4) of
               Inl e \<Rightarrow> Inl e
             | Inr fs \<Rightarrow> Inr ((name, unpack_from_I pl offset') # fs)))"

text \<open>Every exception raised inside is caught and raised again as \<open>ValueError\<close>.
    Bytes
  after the last file entry are ignored.\<close>

definition decode_search_result :: "bytes \<Rightarrow> error + decoded" where
  "decode_search_result pl =
     (case unpack_string pl 0 of
        Inl e \<Rightarrow> Inl ValueError
      | Inr (q, offset1) \<Rightarrow>
          (case unpack_string pl offset1 of
             Inl e \<Rightarrow> Inl ValueError
           | Inr (u, offset2) \<Rightarrow>
               (case unpack_string pl offset2 of
                  Inl e \<Rightarrow> Inl ValueError
                | Inr (fo, offset3) \<Rightarrow>
                    if offset3 \<ge> length pl then Inl ValueError
                    else
                      (case decode_files (unpack_from_B pl offset3) pl (offset3 + 1) of
                         Inl e \<Rightarrow> Inl ValueError
                       | Inr fs \<Rightarrow>
                           Inr \<lparr>d_query = q, d_user = u, d_folder = fo, d_files =
                               fs\<rparr>))))"

subsection \<open>The listener of a search\<close>

text \<open>
  What a search owns besides its place in the client's listener table: the state of its
  async generator, its queue, and the lines its listener has printed (one per reply that
  failed to decode). The generator has not started, waits in \<open>queue.get()\<close>, is
      suspended at
  its \<open>yield\<close>, or has finished; while it runs it remembers \<open>stop\<close>.

  \<open>str.lower\<close> is Python's own Unicode lower-casing; it is a parameter of the model.
\<close>

datatype gen = NotStarted | Waiting real | Suspended real | Finished

record search =
  gen :: gen
  queue :: "SearchResult list"
  printed :: "error list"

definition search_init :: search where
  "search_init = \<lparr>gen = NotStarted, queue = [], printed = []\<rparr>"

definition make_result :: "decoded \<Rightarrow> message \<Rightarrow> SearchResult" where
  "make_result d msg =
     \<lparr>query = d_query d, user = d_user d, folder = d_folder d,
      files = map (\<lambda>(name, sz). \<lparr>filename = name, fsize = sz, bitrate = None,
                                  length_seconds = None\<rparr>) (d_files d),
      user_host = None, user_port = None, raw_payload = Some (payload msg)\<rparr>"

definition listener :: "(str \<Rightarrow> str) \<Rightarrow> str \<Rightarrow> message
    \<Rightarrow> search \<Rightarrow> search" where
  "listener lower q msg s =
     (case decode_search_result (payload msg) of
        Inl e \<Rightarrow> s\<lparr>printed := printed s @ [e]\<rparr>
      | Inr d \<Rightarrow>
          if lower (d_query d) \<noteq> lower q then s
          else s\<lparr>queue := queue s @ [make_result d msg]\<rparr>)"



text \<open>Lower-casing of the ASCII letters, which \<open>str.lower\<close> agrees with on ASCII
    strings;
  used for concrete inputs.\<close>

definition ascii_lower :: "str \<Rightarrow> str" where
  "ascii_lower s = map (\<lambda>c. if 65 \<le> c \<and> c \<le> 90 then c + 32 else c) s"

subsection \<open>The generator of a search\<close>

text \<open>\<open>self._listeners.get(code, [])\<close>\<close>

definition listeners_for :: "nat \<Rightarrow> SoulseekClient \<Rightarrow> nat list" where
  "listeners_for c st = (case listeners st c of None \<Rightarrow> [] | Some l \<Rightarrow> l)"

text \<open>
  A search is the async generator \<open>search(query, timeout)\<close> together with the client it
  registers its listener in. The parameters of the model are \<open>lower\<close>, the identity
      \<open>cb\<close>
  of the listener closure, the query and the timeout. What happens to the pair is driven
  from outside:
  \<^item> \<open>Anext now0 now\<close>: the consumer asks for the next item; \<open>now0\<close>
      is the clock read for
    \<open>stop\<close> (first call only), \<open>now\<close> the clock read at the top of the loop;
  \<^item> \<open>Dispatch msg\<close>: the receive loop dispatches a message;
  \<^item> \<open>Timeout\<close>: the remaining time of a pending \<open>queue.get()\<close> runs
      out;
  \<^item> \<open>Aclose\<close>: the generator is closed at its \<open>yield\<close>, by the
      consumer or by the event
    loop's finaliser for an abandoned generator;
  \<^item> \<open>Athrow e\<close>: an exception is thrown into the generator at its
      \<open>yield\<close>;
  \<^item> \<open>Cancel\<close>: the task waiting in \<open>queue.get()\<close> is cancelled.
\<close>

datatype event =
    Anext real real
  | Dispatch message
  | Timeout
  | Aclose
  | Athrow error
  | Cancel

datatype outcome = Yield SearchResult | StopAsyncIteration | Raise error | NoOutput

type_synonym config = "SoulseekClient \<times> search"

text \<open>The \<open>finally\<close> clause.\<close>

definition finish :: "nat \<Rightarrow> config \<Rightarrow> config" where
  "finish cb cs =
     (unregister_listener MSG_SEARCH_RESULT cb (fst cs), (snd cs)\<lparr>gen := Finished\<rparr>)"

text \<open>One turn of the \<open>while True\<close> loop, from its top to the
    \<open>yield\<close>, to the \<open>break\<close> or
  into the wait for the queue. The queue only ever holds results, never \<open>None\<close>.\<close>

definition loop_turn :: "nat \<Rightarrow> real \<Rightarrow> real \<Rightarrow> config
    \<Rightarrow> config \<times> outcome" where
  "loop_turn cb stop now cs =
     (if stop - now \<le> 0 then (finish cb cs, StopAsyncIteration)
      else
        case queue (snd cs) of
          [] \<Rightarrow> ((fst cs, (snd cs)\<lparr>gen := Waiting stop\<rparr>), NoOutput)
        | item # rest \<Rightarrow>
            ((fst cs, (snd cs)\<lparr>queue := rest, gen := Suspended stop\<rparr>), Yield item))"

text \<open>A dispatched message reaches this search's listener once for every time the
  listener stands in the table under the message's code.\<close>

definition deliver :: "(str \<Rightarrow> str) \<Rightarrow> nat \<Rightarrow> str \<Rightarrow>
    message \<Rightarrow> config \<Rightarrow> config" where
  "deliver lower cb q msg cs =
     (dispatch_message msg (fst cs),
      (if code msg = MSG_SEARCH_RESULT
       then (listener lower q msg ^^ count_list (listeners_for MSG_SEARCH_RESULT (fst cs)) cb)
              (snd cs)
       else snd cs))"

fun search_step ::
  "(str \<Rightarrow> str) \<Rightarrow> nat \<Rightarrow> str \<Rightarrow> real \<Rightarrow>
      config \<Rightarrow> event \<Rightarrow> config \<times> outcome" where
  "search_step lower cb q timeout cs (Anext now0 now) =
     (case gen (snd cs) of
        NotStarted \<Rightarrow>
          (let c1 = register_listener MSG_SEARCH_RESULT cb (fst cs) in
           case build_search q of
             Inl e \<Rightarrow> (finish cb (c1, snd cs), Raise e)
           | Inr data \<Rightarrow>
               (case send data c1 of
                  Inl e \<Rightarrow> (finish cb (c1, snd cs), Raise e)
                | Inr c2 \<Rightarrow> loop_turn cb (now0 + timeout) now (c2, snd cs)))
      | Suspended stop \<Rightarrow> loop_turn cb stop now cs
      | Waiting stop \<Rightarrow> (cs, Raise RuntimeError)
      | Finished \<Rightarrow> (cs, StopAsyncIteration))"
| "search_step lower cb q timeout cs (Dispatch msg) =
     (let cs' = deliver lower cb q msg cs in
      case gen (snd cs') of
        Waiting stop \<Rightarrow>
          (case queue (snd cs') of
             [] \<Rightarrow> (cs', NoOutput)
           | item # rest \<Rightarrow>
               ((fst cs', (snd cs')\<lparr>queue := rest, gen := Suspended stop\<rparr>), Yield
                   item))
      | _ \<Rightarrow> (cs', NoOutput))"
| "search_step lower cb q timeout cs Timeout =
     (case gen (snd cs) of
        Waiting stop \<Rightarrow> (finish cb cs, StopAsyncIteration)
      | _ \<Rightarrow> (cs, NoOutput))"
| "search_step lower cb q timeout cs Aclose =
     (case gen (snd cs) of
        NotStarted \<Rightarrow> ((fst cs, (snd cs)\<lparr>gen := Finished\<rparr>), NoOutput)
      | Suspended stop \<Rightarrow> (finish cb cs, NoOutput)
      | Waiting stop \<Rightarrow> (cs, Raise RuntimeError)
      | Finished \<Rightarrow> (cs, NoOutput))"
| "search_step lower cb q timeout cs (Athrow e) =
     (case gen (snd cs) of
        NotStarted \<Rightarrow> ((fst cs, (snd cs)\<lparr>gen := Finished\<rparr>), Raise e)
      | Suspended stop \<Rightarrow> (finish cb cs, Raise e)
      | Waiting stop \<Rightarrow> (cs, Raise RuntimeError)
      | Finished \<Rightarrow> (cs, Raise e))"
| "search_step lower cb q timeout cs Cancel =
     (case gen (snd cs) of
        Waiting stop \<Rightarrow> (finish cb cs, Raise CancelledError)
      | _ \<Rightarrow> (cs, NoOutput))"

text \<open>A run: the events in order, with the outputs they give.\<close>

fun search_run ::
  "(str \<Rightarrow> str) \<Rightarrow> nat \<Rightarrow> str \<Rightarrow> real \<Rightarrow>
      event list \<Rightarrow> config \<Rightarrow> config \<times> outcome list" where
  "search_run lower cb q timeout [] cs = (cs, [])"
| "search_run lower cb q timeout (ev # evs) cs =
     (case search_step lower cb q timeout cs ev of
        (cs', out) \<Rightarrow>
          (case search_run lower cb q timeout evs cs' of
             (cs'', outs) \<Rightarrow> (cs'', out # outs)))"

text \<open>The generator is running: started and not finished.\<close>

fun running :: "gen \<Rightarrow> bool" where
  "running (Waiting stop) = True"
| "running (Suspended stop) = True"
| "running NotStarted = False"
| "running Finished = False"

section \<open>Download manager (types.py, download.py)\<close>

text \<open>
  \<open>DownloadStatus\<close>, \<open>DownloadProgress\<close> and \<open>DownloadHandle\<close>
      of types.py; the fields carry a
  prefix because \<open>user\<close> and the like already name fields of
      \<open>SearchResult\<close>.

  The \<open>_future\<close> of a handle is the task \<open>create_task(_run())\<close> returned:
      the host and port
  its closure holds, and how far it is. \<open>done()\<close> of a task is true once it has ended
  (returned, raised or cancelled); \<open>cancel()\<close> of a task that has not ended only
      requests
  the cancellation, and the task ends when the event loop next runs it.
\<close>

datatype DownloadStatus = QUEUED | CONNECTING | IN_PROGRESS | COMPLETED | FAILED | CANCELLED

datatype task_state = TaskPending | TaskCancelling | TaskDone

record transfer =
  t_host :: str
  t_port :: int
  t_state :: task_state

record DownloadProgress =
  p_user :: str
  p_remote_path :: str
  p_destination :: str
  p_bytes_received :: nat
  p_total_bytes :: "nat option"
  p_status :: DownloadStatus
  p_error :: "str option"
  p_transfer_rate_bps :: "real option"

record DownloadHandle =
  h_id :: str
  h_user :: str
  h_remote_path :: str
  h_destination :: str
  h_status :: DownloadStatus
  h_total_bytes :: "nat option"
  h_bytes_received :: nat
  h_error :: "str option"
  h_future :: "transfer option"

text \<open>What the manager hands to the event emitter: the event name with its argument.\<close>

datatype notification =
    download_started DownloadHandle
  | download_cancelled DownloadProgress

text \<open>
  The manager: the \<open>_active\<close> dictionary, the notifications emitted so far, and the
  identifiers \<open>uuid.uuid4()\<close> gives, numbered by call. A handle is a mutable object
      that the
  dictionary and the caller share; the model keeps its state in the dictionary and
  returns to the caller the handle as \<open>download_file\<close> leaves it.
\<close>

record DownloadManager =
  active :: "str \<rightharpoonup> DownloadHandle"
  emitted :: "notification list"
  uuid4 :: "nat \<Rightarrow> str"
  uuid4_calls :: nat

definition DownloadManager_init :: "(nat \<Rightarrow> str) \<Rightarrow> DownloadManager" where
  "DownloadManager_init ids =
     \<lparr>active = Map.empty, emitted = [], uuid4 = ids, uuid4_calls = 0\<rparr>"

text \<open>\<open>download_file\<close>: the handle is made and stored under its id,
    \<open>download_started\<close> is
  emitted with it, then the task is created and put into the handle.\<close>

definition download_file ::
  "str \<Rightarrow> str \<Rightarrow> str \<Rightarrow> int \<Rightarrow> str \<Rightarrow>
      DownloadManager
   \<Rightarrow> DownloadHandle \<times> DownloadManager" where
  "download_file usr remote_path host port destination m =
     (let handle = \<lparr>h_id = uuid4 m (uuid4_calls m), h_user = usr,
                     h_remote_path = remote_path, h_destination = destination,
                     h_status = QUEUED, h_total_bytes = None, h_bytes_received = 0,
                     h_error = None, h_future = None\<rparr>;
          m1 = m\<lparr>uuid4_calls := Suc (uuid4_calls m),
                 active := (active m)(h_id handle \<mapsto> handle)\<rparr>;
          m2 = m1\<lparr>emitted := emitted m1 @ [download_started handle]\<rparr>;
          handle' = handle\<lparr>h_future :=
                       Some \<lparr>t_host = host, t_port = port, t_state =
                           TaskPending\<rparr>\<rparr>
      in (handle', m2\<lparr>active := (active m2)(h_id handle \<mapsto> handle')\<rparr>))"

text \<open>\<open>s.replace("//", "/")\<close>: the occurrences are found from the left and do
    not overlap.
  The slash is code point 47.\<close>

fun replace_slashes :: "str \<Rightarrow> str" where
  "replace_slashes (a # b # s) =
     (if a = 47 \<and> b = 47 then 47 # replace_slashes s else a # replace_slashes (b # s))"
| "replace_slashes s = s"

text \<open>\<open>download_folder\<close>: the inner loop over the files of one result, then the
    loop over
  the results.\<close>

fun download_folder_files ::
  "str \<Rightarrow> str \<Rightarrow> int \<Rightarrow> str \<Rightarrow> str \<Rightarrow>
      SearchResultFile list \<Rightarrow> DownloadManager
   \<Rightarrow> DownloadHandle list \<times> DownloadManager" where
  "download_folder_files usr host port destination_dir r_folder [] m = ([], m)"
| "download_folder_files usr host port destination_dir r_folder (f # fs) m =
     (let remote_path = replace_slashes (r_folder @ [47] @ filename f);
          dest = destination_dir @ [47] @ filename f
      in case download_file usr remote_path host port dest m of
           (handle, m1) \<Rightarrow>
             (case download_folder_files usr host port destination_dir r_folder fs m1 of
                (tasks, m2) \<Rightarrow> (handle # tasks, m2)))"

fun download_folder ::
  "str \<Rightarrow> str \<Rightarrow> str \<Rightarrow> int \<Rightarrow> SearchResult list
      \<Rightarrow> str \<Rightarrow> DownloadManager
   \<Rightarrow> DownloadHandle list \<times> DownloadManager" where
  "download_folder usr folder_path host port [] destination_dir m = ([], m)"
| "download_folder usr folder_path host port (r # results) destination_dir m =
     (if user r \<noteq> usr then download_folder usr folder_path host port results
         destination_dir m
      else if folder r \<noteq> folder_path
      then download_folder usr folder_path host port results destination_dir m
      else
        case download_folder_files usr host port destination_dir (folder r) (files r) m of
          (tasks, m1) \<Rightarrow>
            (case download_folder usr folder_path host port results destination_dir m1 of
               (later, m2) \<Rightarrow> (tasks @ later, m2)))"

text \<open>The file records the specification counts: those of the results whose user and
  folder are the given ones, in order. And the handle one \<open>download_file\<close> call leaves
      for
  such a file, given the identifier it drew.\<close>

definition requested_files :: "str \<Rightarrow> str \<Rightarrow> SearchResult list \<Rightarrow>
    SearchResultFile list" where
  "requested_files usr folder_path results =
     concat (map files (filter (\<lambda>r. user r = usr \<and> folder r = folder_path) results))"

definition handle_for ::
  "str \<Rightarrow> str \<Rightarrow> str \<Rightarrow> int \<Rightarrow> str \<Rightarrow> str
      \<Rightarrow> SearchResultFile \<Rightarrow> DownloadHandle" where
  "handle_for usr folder_path host port destination_dir ident f =
     \<lparr>h_id = ident, h_user = usr,
      h_remote_path = replace_slashes (folder_path @ [47] @ filename f),
      h_destination = destination_dir @ [47] @ filename f,
      h_status = QUEUED, h_total_bytes = None, h_bytes_received = 0, h_error = None,
      h_future = Some \<lparr>t_host = host, t_port = port, t_state = TaskPending\<rparr>\<rparr>"



section \<open>Properties of the frame codec\<close>

subsection \<open>Big-endian fields\<close>

lemma unat_of_nat_byte: "unat (of_nat n :: byte) = n mod 256"
  by (simp add: unat_of_nat)

lemma be_nat_simps:
  "be_nat [] = 0"
  "be_nat [a] = unat a"
  "be_nat [a, b] = unat a * 256 + unat b"
  "be_nat [a, b, c, d] = ((unat a * 256 + unat b) * 256 + unat c) * 256 + unat d"
  by (simp_all add: be_nat_def)

lemma be_nat_pack_H:
  assumes "n \<le> 65535"
  shows "be_nat [of_nat (n div 256), of_nat n :: byte] = n"
proof -
  from assms have "n div 256 < 256" by simp
  then have "n div 256 mod 256 = n div 256" by simp
  then show ?thesis by (simp add: be_nat_simps unat_of_nat_byte)
qed

lemma digits4:
  "(n::nat) = 256 * m + a \<Longrightarrow> m = 256 * k + b \<Longrightarrow> k = 256 * j + c
      \<Longrightarrow>
   ((j * 256 + c) * 256 + b) * 256 + a = n"
  by simp

lemma be_nat_pack_I:
  assumes a: "n \<le> 4294967295"
  shows "be_nat [of_nat (n div 16777216), of_nat (n div 65536), of_nat (n div 256),
                 of_nat n :: byte] = n"
proof -
  define m where "m = n div 256"
  define k where "k = m div 256"
  define j where "j = k div 256"
  have d1: "n div 65536 = k" by (simp add: k_def m_def div_mult2_eq)
  have d2: "n div 16777216 = j" by (simp add: j_def k_def m_def div_mult2_eq)
  have e1: "n = 256 * m + n mod 256" by (simp add: m_def)
  have e2: "m = 256 * k + m mod 256" by (simp add: k_def)
  have e3: "k = 256 * j + k mod 256" by (simp add: j_def)
  have "j < 256" using a d2 by simp
  then have e4: "j mod 256 = j" by simp
  have "((j * 256 + k mod 256) * 256 + m mod 256) * 256 + n mod 256 = n"
    by (rule digits4 [OF e1 e2 e3])
  then show ?thesis
    by (simp add: be_nat_simps unat_of_nat_byte d1 d2 e4 flip: m_def)
qed

subsection \<open>Round trip of a frame\<close>

text \<open>
  C5 (as the code has it). \<open>pack_message\<close> is not total: \<open>struct.pack\<close>
      refuses a type code
  outside 0..255 and a length field above \<open>2^32 - 1\<close>. For every type code in 0..255 and
  every payload of at most \<open>2^32 - 2\<close> bytes, the zero-length payload included,
  \<open>pack_message\<close> returns a frame, \<open>parse_message\<close> of that frame returns
      the same code and
  the same payload, and the frame's 4-byte big-endian length field is \<open>1 +
      len(payload)\<close>.
  For every other type code and for every longer payload \<open>pack_message\<close> raises
  struct.error; so it returns a frame exactly when the code and the payload are in range.
\<close>

theorem pack_message_roundtrip:
  "(0 \<le> c \<and> c \<le> 255 \<and> length pl \<le> 4294967294 \<longrightarrow>
      (\<exists>raw. pack_message c pl = Inr raw
         \<and> parse_message raw = Inr \<lparr>code = nat c, payload = pl\<rparr>
         \<and> unpack_from_I raw 0 = 1 + length pl
         \<and> length raw = 5 + length pl))
   \<and> (c < 0 \<or> 255 < c \<or> 4294967294 < length pl \<longrightarrow> pack_message c pl =
       Inl StructError)
   \<and> ((\<exists>raw. pack_message c pl = Inr raw) \<longleftrightarrow>
        (0 \<le> c \<and> c \<le> 255 \<and> length pl \<le> 4294967294))"
proof -
  let ?n = "1 + length pl"
  let ?lb = "[of_nat (?n div 16777216), of_nat (?n div 65536), of_nat (?n div 256),
              of_nat ?n :: byte]"
  let ?raw = "?lb @ [of_int c] @ pl"
  have inside: "pack_message c pl = Inr ?raw
         \<and> parse_message ?raw = Inr \<lparr>code = nat c, payload = pl\<rparr>
         \<and> unpack_from_I ?raw 0 = 1 + length pl
         \<and> length ?raw = 5 + length pl"
    if c: "0 \<le> c" "c \<le> 255" and l: "length pl \<le> 4294967294"
  proof -
    have n: "?n \<le> 4294967295" using l by simp
    have p: "pack_message c pl = Inr ?raw"
      using c n by (simp add: pack_message_def pack_I_def pack_B_def Let_def)
    have h: "be_nat ?lb = ?n" by (rule be_nat_pack_I [OF n])
    have cb: "be_nat [of_int c :: byte] = nat c"
      using c unat_of_nat_byte [of "nat c"] by (simp add: be_nat_simps)
    have "parse_message ?raw = Inr \<lparr>code = nat c, payload = pl\<rparr>"
      using h cb by (simp add: parse_message_def unpack_from_I_def unpack_from_B_def Let_def)
    moreover have "unpack_from_I ?raw 0 = ?n" using h by (simp add: unpack_from_I_def)
    ultimately show ?thesis using p by simp
  qed
  have outside: "pack_message c pl = Inl StructError"
    if "c < 0 \<or> 255 < c \<or> 4294967294 < length pl"
    using that by (auto simp add: pack_message_def pack_I_def pack_B_def Let_def)
  have "(\<exists>raw. pack_message c pl = Inr raw) \<longleftrightarrow>
        (0 \<le> c \<and> c \<le> 255 \<and> length pl \<le> 4294967294)"
  proof (cases "0 \<le> c \<and> c \<le> 255 \<and> length pl \<le> 4294967294")
    case True
    then show ?thesis using inside by blast
  next
    case False
    then have "c < 0 \<or> 255 < c \<or> 4294967294 < length pl" by auto
    then have "pack_message c pl = Inl StructError" by (rule outside)
    then show ?thesis using False by simp
  qed
  then show ?thesis using inside outside by blast
qed

theorem pack_message_roundtrip_witness:
  "(0::int) \<le> 17 \<and> (17::int) \<le> 255 \<and> length ([] :: bytes) \<le> 4294967294
   \<and> (\<exists>raw. pack_message 17 [] = Inr raw
          \<and> parse_message raw = Inr \<lparr>code = nat 17, payload = []\<rparr>
          \<and> unpack_from_I raw 0 = 1 + length ([] :: bytes)
          \<and> length raw = 5)
   \<and> (255::int) < 257 \<and> pack_message 257 [1, 2] = Inl StructError
   \<and> (-1::int) < 0 \<and> pack_message (-1) [] = Inl StructError
   \<and> 4294967294 < length (replicate 4294967296 (0::byte))
   \<and> pack_message 0 (replicate 4294967296 0) = Inl StructError"
  using pack_message_roundtrip [of 17 "[]"] pack_message_roundtrip [of 257 "[1, 2]"]
    pack_message_roundtrip [of "-1" "[]"]
    pack_message_roundtrip [of 0 "replicate 4294967296 0"]
  by simp

text \<open>The claim as written fails: a type code of 256 and a payload of \<open>2^32 -
    1\<close> bytes
  are both refused by \<open>struct.pack\<close>, so no frame is produced.\<close>

theorem pack_message_counterexample:
  "pack_message 0 (replicate 4294967295 0) = Inl StructError
   \<and> pack_message 256 [] = Inl StructError"
  by (simp add: pack_message_def pack_I_def pack_B_def)

subsection \<open>Incremental frame extraction\<close>

lemma iter_frames_incomplete: "incomplete b \<Longrightarrow> iter_frames b = ([], b)"
  by (subst iter_frames.simps) (auto simp: incomplete_def Let_def)

lemma iter_frames_complete:
  "\<not> incomplete b \<Longrightarrow> iter_frames b =
     (take (4 + unpack_from_I b 0) b # fst (iter_frames (drop (4 + unpack_from_I b 0) b)),
      snd (iter_frames (drop (4 + unpack_from_I b 0) b)))"
  by (subst iter_frames.simps) (auto simp: incomplete_def Let_def split: prod.splits)

lemma unpack_from_I_append:
  "4 \<le> length a \<Longrightarrow> unpack_from_I (a @ b) 0 = unpack_from_I a 0"
  by (simp add: unpack_from_I_def)

lemma complete_append: "\<not> incomplete a \<Longrightarrow> \<not> incomplete (a @ b)"
  by (auto simp: incomplete_def unpack_from_I_append)

lemma iter_frames_append:
  "iter_frames (a @ b) =
     (fst (iter_frames a) @ fst (iter_frames (snd (iter_frames a) @ b)),
      snd (iter_frames (snd (iter_frames a) @ b)))"
proof (induction a rule: iter_frames.induct)
  case (1 buffer)
  show ?case
  proof (cases "incomplete buffer")
    case True
    then show ?thesis by (simp add: iter_frames_incomplete)
  next
    case False
    let ?n = "4 + unpack_from_I buffer 0"
    from False have len: "4 \<le> length buffer" "?n \<le> length buffer"
      by (auto simp: incomplete_def)
    have ih: "iter_frames (drop ?n buffer @ b) =
        (fst (iter_frames (drop ?n buffer)) @ fst (iter_frames (snd (iter_frames (drop ?n buffer))
            @ b)),
         snd (iter_frames (snd (iter_frames (drop ?n buffer)) @ b)))"
      using "1.IH" [of "unpack_from_I buffer 0"] len by simp
    have c: "\<not> incomplete (buffer @ b)" using False by (rule complete_append)
    have u: "unpack_from_I (buffer @ b) 0 = unpack_from_I buffer 0"
      using len by (simp add: unpack_from_I_append)
    show ?thesis
      using len by (simp add: iter_frames_complete [OF c] iter_frames_complete [OF False] u ih)
  qed
qed

lemma iter_frames_concat: "concat (fst (iter_frames b)) @ snd (iter_frames b) = b"
proof (induction b rule: iter_frames.induct)
  case (1 buffer)
  show ?case
  proof (cases "incomplete buffer")
    case True
    then show ?thesis by (simp add: iter_frames_incomplete)
  next
    case False
    from False have len: "4 \<le> length buffer" "4 + unpack_from_I buffer 0 \<le> length buffer"
      by (auto simp: incomplete_def)
    show ?thesis
      using "1.IH" [of "unpack_from_I buffer 0"] len
      by (simp add: iter_frames_complete [OF False])
  qed
qed

lemma iter_frames_rest: "incomplete (snd (iter_frames b))"
proof (induction b rule: iter_frames.induct)
  case (1 buffer)
  show ?case
  proof (cases "incomplete buffer")
    case True
    then show ?thesis by (simp add: iter_frames_incomplete)
  next
    case False
    from False have len: "4 \<le> length buffer" "4 + unpack_from_I buffer 0 \<le> length buffer"
      by (auto simp: incomplete_def)
    show ?thesis
      using "1.IH" [of "unpack_from_I buffer 0"] len
      by (simp add: iter_frames_complete [OF False])
  qed
qed

lemma iter_frames_frames:
  "f \<in> set (fst (iter_frames b)) \<Longrightarrow> length f = 4 + unpack_from_I f 0"
proof (induction b rule: iter_frames.induct)
  case (1 buffer)
  show ?case
  proof (cases "incomplete buffer")
    case True
    with "1.prems" show ?thesis by (simp add: iter_frames_incomplete)
  next
    case False
    let ?n = "4 + unpack_from_I buffer 0"
    from False have len: "4 \<le> length buffer" "?n \<le> length buffer"
      by (auto simp: incomplete_def)
    have hd: "unpack_from_I (take ?n buffer) 0 = unpack_from_I buffer 0"
      by (simp add: unpack_from_I_def)
    from "1.prems" have "f = take ?n buffer \<or> f \<in> set (fst (iter_frames (drop ?n buffer)))"
      by (simp add: iter_frames_complete [OF False])
    then show ?thesis
    proof
      assume "f = take ?n buffer"
      then show ?thesis using len hd by simp
    next
      assume "f \<in> set (fst (iter_frames (drop ?n buffer)))"
      then show ?thesis using "1.IH" [of "unpack_from_I buffer 0"] len by simp
    qed
  qed
qed

lemma feed_iter_frames:
  "incomplete buffer \<Longrightarrow> feed buffer chunks = iter_frames (buffer @ concat chunks)"
proof (induction chunks arbitrary: buffer)
  case Nil
  then show ?case by (simp add: iter_frames_incomplete)
next
  case (Cons chunk chunks)
  have "feed (snd (iter_frames (buffer @ chunk))) chunks =
        iter_frames (snd (iter_frames (buffer @ chunk)) @ concat chunks)"
    by (rule Cons.IH) (rule iter_frames_rest)
  then show ?case
    using iter_frames_append [of "buffer @ chunk" "concat chunks"]
    by (simp add: case_prod_unfold)
qed

text \<open>
  C2. For every byte stream and every way of splitting it into successive reads, extracting
  frames after each append (\<open>feed\<close>, from the empty buffer) yields, in order, the same
      frames
  as one extraction on the whole stream, and leaves the same remainder. Every frame yielded
  has all of its \<open>4 + length\<close> bytes; the frames yielded followed by the buffer are
      exactly
  the bytes read so far, so no byte of a frame is invented or lost; the remainder is always
  a stop condition of the loop (fewer than 4 bytes, or fewer than \<open>4 + length\<close>), and a
  buffer in such a condition is returned untouched with no frame.
\<close>

theorem iter_frames_incremental:
  "feed [] chunks = iter_frames (concat chunks)
   \<and> (\<forall>f \<in> set (fst (feed [] chunks)). length f = 4 + unpack_from_I f 0)
   \<and> concat (fst (feed [] chunks)) @ snd (feed [] chunks) = concat chunks
   \<and> incomplete (snd (feed [] chunks))
   \<and> (incomplete buffer \<longrightarrow> iter_frames buffer = ([], buffer))"
proof -
  have e: "incomplete ([] :: bytes)" by (simp add: incomplete_def)
  have f: "feed [] chunks = iter_frames (concat chunks)"
    using feed_iter_frames [OF e, of chunks] by simp
  show ?thesis
    unfolding f
    using iter_frames_frames [of _ "concat chunks"] iter_frames_concat [of "concat chunks"]
      iter_frames_rest [of "concat chunks"] iter_frames_incomplete [of buffer]
    by blast
qed

theorem iter_frames_incremental_witness:
  "feed [] [[0, 0], [0, 1, 7, 0, 0, 0], [2, 8, 9, 0, 0]]
     = ([[0, 0, 0, 1, 7], [0, 0, 0, 2, 8, 9]], [0, 0])
   \<and> iter_frames (concat [[0, 0], [0, 1, 7, 0, 0, 0], [2, 8, 9, 0, 0]])
     = ([[0, 0, 0, 1, 7], [0, 0, 0, 2, 8, 9]], [0, 0])
   \<and> [0, 0, 0, 2, 8, 9] \<in> set (fst (feed [] [[0, 0], [0, 1, 7, 0, 0, 0], [2, 8, 9, 0, 0]]))
   \<and> length [0, 0, 0, 2, 8, 9 :: byte] = 4 + unpack_from_I [0, 0, 0, 2, 8, 9] 0
   \<and> incomplete [0, 0, 0, 2, 8] \<and> iter_frames [0, 0, 0, 2, 8] = ([], [0, 0, 0, 2, 8])"
proof -
  have i: "incomplete [0, 0, 0, 2, 8]"
    by (simp add: incomplete_def unpack_from_I_def be_nat_simps)
  have v: "iter_frames (concat [[0, 0], [0, 1, 7, 0, 0, 0], [2, 8, 9, 0, 0]])
     = ([[0, 0, 0, 1, 7], [0, 0, 0, 2, 8, 9]], [0, 0])"
    by (simp add: iter_frames.simps unpack_from_I_def be_nat_simps)
  show ?thesis
    using iter_frames_incremental [of "[[0, 0], [0, 1, 7, 0, 0, 0], [2, 8, 9, 0, 0]]"
        "[0, 0, 0, 2, 8]"] i v
    by (simp add: unpack_from_I_def be_nat_simps)
qed

section \<open>Properties of the server connection\<close>







section \<open>Properties of the string codec\<close>

subsection \<open>UTF-8: decoding what was encoded\<close>

lemma unat_byte: "n < 256 \<Longrightarrow> unat (of_nat n :: byte) = n"
  by (simp add: unat_of_nat_byte)

lemma utf8_first_ascii: "unat b0 < 128 \<Longrightarrow> utf8_first (b0 # r) = (unat b0, 1)"
  by (simp add: utf8_first_def Let_def)

lemma utf8_first_two:
  "194 \<le> unat b0 \<Longrightarrow> unat b0 \<le> 223 \<Longrightarrow> is_continuation b1
      \<Longrightarrow>
   utf8_first (b0 # b1 # r) = ((unat b0 - 192) * 64 + (unat b1 - 128), 2)"
  by (simp add: utf8_first_def Let_def)

lemma utf8_first_three:
  "224 \<le> unat b0 \<Longrightarrow> unat b0 \<le> 239 \<Longrightarrow>
   (if unat b0 = 224 then 160 else 128) \<le> unat b1 \<Longrightarrow>
   unat b1 \<le> (if unat b0 = 237 then 159 else 191) \<Longrightarrow> is_continuation b2
       \<Longrightarrow>
   utf8_first (b0 # b1 # b2 # r)
     = ((unat b0 - 224) * 4096 + (unat b1 - 128) * 64 + (unat b2 - 128), 3)"
  by (simp add: utf8_first_def Let_def)

lemma utf8_first_four:
  "240 \<le> unat b0 \<Longrightarrow> unat b0 \<le> 244 \<Longrightarrow>
   (if unat b0 = 240 then 144 else 128) \<le> unat b1 \<Longrightarrow>
   unat b1 \<le> (if unat b0 = 244 then 143 else 191) \<Longrightarrow>
   is_continuation b2 \<Longrightarrow> is_continuation b3 \<Longrightarrow>
   utf8_first (b0 # b1 # b2 # b3 # r)
     = ((unat b0 - 240) * 262144 + (unat b1 - 128) * 4096 + (unat b2 - 128) * 64
        + (unat b3 - 128), 4)"
  by (simp add: utf8_first_def Let_def)

lemma cont_byte: "l < 64 \<Longrightarrow> is_continuation (of_nat (128 + l))
    \<and> unat (of_nat (128 + l) :: byte) = 128 + l"
proof -
  assume l: "l < 64"
  have "unat (of_nat (128 + l) :: byte) = 128 + l" by (rule unat_byte) (use l in simp)
  then show ?thesis using l by (simp add: is_continuation_def)
qed

lemma utf8_first_1:
  assumes "c < 128"
  shows "utf8_first (of_nat c # rest) = (c, 1)"
proof -
  have "unat (of_nat c :: byte) = c" by (rule unat_byte) (use assms in simp)
  then show ?thesis using assms utf8_first_ascii [of "of_nat c" rest] by simp
qed

lemma utf8_first_2:
  assumes "128 \<le> c" "c < 2048"
  shows "utf8_first (of_nat (192 + c div 64) # of_nat (128 + c mod 64) # rest) = (c, 2)"
proof -
  define a where "a = c div 64"
  define l where "l = c mod 64"
  have c: "c = a * 64 + l" by (simp add: a_def l_def)
  have l: "l < 64" by (simp add: l_def)
  have a: "2 \<le> a" "a < 32" using assms by (simp_all add: a_def less_mult_imp_div_less)
  have u0: "unat (of_nat (192 + a) :: byte) = 192 + a" by (rule unat_byte) (use a in simp)
  note u1 = cont_byte [OF l]
  have "utf8_first (of_nat (192 + a) # of_nat (128 + l) # rest)
      = ((unat (of_nat (192 + a) :: byte) - 192) * 64 + (unat (of_nat (128 + l) :: byte) - 128), 2)"
    by (rule utf8_first_two) (use u0 u1 a in simp_all)
  then show ?thesis
    unfolding a_def [symmetric] l_def [symmetric] u0 using u1 by (simp add: c)
qed

lemma utf8_first_3:
  assumes "2048 \<le> c" "c < 65536" "\<not> (55296 \<le> c \<and> c \<le> 57343)"
  shows "utf8_first (of_nat (224 + c div 4096) # of_nat (128 + c div 64 mod 64)
                     # of_nat (128 + c mod 64) # rest) = (c, 3)"
proof -
  define q where "q = c div 64"
  define a where "a = q div 64"
  define m where "m = q mod 64"
  define l where "l = c mod 64"
  have ca: "c div 4096 = a" by (simp add: a_def q_def div_mult2_eq)
  have c: "c = q * 64 + l" by (simp add: q_def l_def)
  have q: "q = a * 64 + m" by (simp add: a_def m_def)
  have l: "l < 64" by (simp add: l_def)
  have m: "m < 64" by (simp add: m_def)
  have a: "a < 16" using assms ca by (simp add: less_mult_imp_div_less)
  have lo: "32 \<le> m" if "a = 0"
  proof -
    have "c = m * 64 + l" using c q that by simp
    then show ?thesis using assms l by linarith
  qed
  have hi: "m < 32" if "a = 13"
  proof -
    have e: "c = 53248 + m * 64 + l" using c q that by simp
    then have "c \<le> 57343" using m l by linarith
    then have "c < 55296" using assms e by linarith
    then show ?thesis using e by linarith
  qed
  have u0: "unat (of_nat (224 + a) :: byte) = 224 + a" by (rule unat_byte) (use a in simp)
  note u1 = cont_byte [OF m]
  note u2 = cont_byte [OF l]
  have "utf8_first (of_nat (224 + a) # of_nat (128 + m) # of_nat (128 + l) # rest)
      = ((unat (of_nat (224 + a) :: byte) - 224) * 4096
         + (unat (of_nat (128 + m) :: byte) - 128) * 64
         + (unat (of_nat (128 + l) :: byte) - 128), 3)"
    by (rule utf8_first_three) (use u0 u1 u2 a m lo hi in auto)
  then show ?thesis
    unfolding ca q_def [symmetric] m_def [symmetric] l_def [symmetric] u0
    using u1 u2 by (simp add: c q)
qed

lemma utf8_first_4:
  assumes "65536 \<le> c" "c < 1114112"
  shows "utf8_first (of_nat (240 + c div 262144) # of_nat (128 + c div 4096 mod 64)
                     # of_nat (128 + c div 64 mod 64) # of_nat (128 + c mod 64) # rest)
         = (c, 4)"
proof -
  define q where "q = c div 64"
  define p where "p = q div 64"
  define a where "a = p div 64"
  define m1 where "m1 = p mod 64"
  define m2 where "m2 = q mod 64"
  define l where "l = c mod 64"
  have cp: "c div 4096 = p" by (simp add: p_def q_def div_mult2_eq)
  have ca: "c div 262144 = a" by (simp add: a_def p_def q_def div_mult2_eq)
  have c: "c = q * 64 + l" by (simp add: q_def l_def)
  have q: "q = p * 64 + m2" by (simp add: p_def m2_def)
  have p: "p = a * 64 + m1" by (simp add: a_def m1_def)
  have l: "l < 64" by (simp add: l_def)
  have m1: "m1 < 64" by (simp add: m1_def)
  have m2: "m2 < 64" by (simp add: m2_def)
  have e: "c = a * 262144 + m1 * 4096 + m2 * 64 + l" using c q p by simp
  have a: "a \<le> 4" using assms e by linarith
  have lo: "16 \<le> m1" if "a = 0"
  proof -
    have "c = m1 * 4096 + m2 * 64 + l" using e that by simp
    then show ?thesis using assms l m2 by linarith
  qed
  have hi: "m1 < 16" if "a = 4"
  proof -
    have "c = 1048576 + m1 * 4096 + m2 * 64 + l" using e that by simp
    then show ?thesis using assms by linarith
  qed
  have u0: "unat (of_nat (240 + a) :: byte) = 240 + a" by (rule unat_byte) (use a in simp)
  note u1 = cont_byte [OF m1]
  note u2 = cont_byte [OF m2]
  note u3 = cont_byte [OF l]
  have "utf8_first (of_nat (240 + a) # of_nat (128 + m1) # of_nat (128 + m2)
                    # of_nat (128 + l) # rest)
      = ((unat (of_nat (240 + a) :: byte) - 240) * 262144
         + (unat (of_nat (128 + m1) :: byte) - 128) * 4096
         + (unat (of_nat (128 + m2) :: byte) - 128) * 64
         + (unat (of_nat (128 + l) :: byte) - 128), 4)"
    by (rule utf8_first_four) (use u0 u1 u2 u3 a m1 lo hi in auto)
  then show ?thesis
    unfolding ca cp q_def [symmetric] m1_def [symmetric] m2_def [symmetric] l_def [symmetric] u0
    using u1 u2 u3 by (simp add: c q p)
qed

lemma utf8_first_encode_cp:
  assumes "encode_cp c = Inr b"
  shows "utf8_first (b @ rest) = (c, length b) \<and> b \<noteq> []"
proof -
  consider "c < 128" | "128 \<le> c" "c < 2048"
    | "2048 \<le> c" "c < 65536" "\<not> (55296 \<le> c \<and> c \<le> 57343)"
    | "65536 \<le> c" "c < 1114112"
    using assms by (auto simp: encode_cp_def split: if_splits)
  then show ?thesis
  proof cases
    case 1
    then show ?thesis using assms utf8_first_1 [of c rest] by (auto simp: encode_cp_def)
  next
    case 2
    then show ?thesis using assms utf8_first_2 [of c rest] by (auto simp: encode_cp_def)
  next
    case 3
    then show ?thesis using assms utf8_first_3 [of c rest]
      by (auto simp: encode_cp_def split: if_splits)
  next
    case 4
    then show ?thesis using assms utf8_first_4 [of c rest]
      by (auto simp: encode_cp_def split: if_splits)
  qed
qed

lemma decode_encode_cp:
  assumes "encode_cp c = Inr b"
  shows "decode_utf8_replace (b @ rest) = c # decode_utf8_replace rest"
proof -
  from utf8_first_encode_cp [OF assms, of rest]
  have f: "utf8_first (b @ rest) = (c, length b)" and ne: "b \<noteq> []" by simp_all
  from ne obtain x xs where b: "b = x # xs" by (cases b) auto
  show ?thesis using f by (simp add: b)
qed

lemma decode_encode_utf8:
  "encode_utf8 s = Inr data \<Longrightarrow> decode_utf8_replace (data @ rest) = s @
      decode_utf8_replace rest"
proof (induction s arbitrary: data)
  case Nil
  then show ?case by simp
next
  case (Cons c cs)
  from Cons.prems obtain b bs where b: "encode_cp c = Inr b" and bs: "encode_utf8 cs = Inr bs"
    and d: "data = b @ bs"
    by (auto split: sum.splits)
  show ?case using decode_encode_cp [OF b, of "bs @ rest"] Cons.IH [OF bs] by (simp add: d)
qed

subsection \<open>Length-prefixed strings\<close>

lemma pack_string_ok:
  assumes "encode_utf8 s = Inr data" "length data \<le> 65535"
  shows "pack_string s = Inr (of_nat (length data div 256) # of_nat (length data) # data)"
  using assms by (simp add: pack_string_def pack_H_def)

lemma pack_string_too_long:
  assumes "encode_utf8 s = Inr data" "65535 < length data"
  shows "pack_string s = Inl StructError"
  using assms by (simp add: pack_string_def pack_H_def)

lemma unpack_string_packed:
  assumes e: "encode_utf8 s = Inr data" and n: "length data \<le> 65535"
  shows "unpack_string (pre @ of_nat (length data div 256) # of_nat (length data) # data @ post)
           (length pre) = Inr (s, length pre + 2 + length data)"
proof -
  let ?n = "length data"
  let ?b = "pre @ of_nat (?n div 256) # of_nat ?n # data @ post"
  have h: "unpack_from_H ?b (length pre) = ?n"
    using be_nat_pack_H [OF n] by (simp add: unpack_from_H_def)
  have d: "decode_utf8_replace data = s"
    using decode_encode_utf8 [OF e, of "[]"] by simp
  show ?thesis
    by (simp add: unpack_string_def Let_def h d del: of_nat_add)
qed

lemma encode_utf8_ascii: "encode_utf8 (replicate n 97) = Inr (replicate n 97)"
  by (induction n) (simp_all add: encode_cp_def)

text \<open>
  C10. String encoding is not total. For every string that has a UTF-8 encoding of at most
  65535 bytes, \<open>pack_string\<close> returns the 2-byte big-endian length followed by the UTF-8
  bytes, and \<open>unpack_string\<close> of that output gives the string back (with the offset
      after
  it). For every string whose UTF-8 encoding is longer than 65535 bytes, \<open>pack_string\<close>
  raises struct.error, and so do \<open>build_search\<close>, \<open>build_login\<close> and
  \<open>build_download_request\<close> with that string as either argument (the other argument
      being
  any string that can be encoded).
\<close>

theorem pack_string_not_total:
  assumes e: "encode_utf8 s = Inr data"
  shows "(length data \<le> 65535 \<longrightarrow>
            pack_string s = Inr (of_nat (length data div 256) # of_nat (length data) # data)
            \<and> unpack_from_H (of_nat (length data div 256) # of_nat (length data) # data) 0
                = length data
            \<and> unpack_string (of_nat (length data div 256) # of_nat (length data) # data) 0
                = Inr (s, 2 + length data))
       \<and> (65535 < length data \<longrightarrow>
            pack_string s = Inl StructError
            \<and> build_search s = Inl StructError
            \<and> build_login s other = Inl StructError
            \<and> build_download_request s other = Inl StructError
            \<and> (\<forall>d. encode_utf8 other = Inr d \<longrightarrow>
                  build_login other s = Inl StructError
                  \<and> build_download_request other s = Inl StructError))"
proof (intro conjI impI allI)
  assume n: "length data \<le> 65535"
  show "pack_string s = Inr (of_nat (length data div 256) # of_nat (length data) # data)"
    by (rule pack_string_ok [OF e n])
  show "unpack_from_H (of_nat (length data div 256) # of_nat (length data) # data) 0
          = length data"
    using be_nat_pack_H [OF n] by (simp add: unpack_from_H_def)
  show "unpack_string (of_nat (length data div 256) # of_nat (length data) # data) 0
          = Inr (s, 2 + length data)"
    using unpack_string_packed [OF e n, of "[]" "[]"] by simp
next
  assume n: "65535 < length data"
  note p = pack_string_too_long [OF e n]
  show "pack_string s = Inl StructError" by (rule p)
  show "build_search s = Inl StructError" by (simp add: build_search_def p)
  show "build_login s other = Inl StructError" by (simp add: build_login_def p)
  show "build_download_request s other = Inl StructError"
    by (simp add: build_download_request_def p)
  fix d assume o: "encode_utf8 other = Inr d"
  have "pack_string other = Inl StructError \<or> (\<exists>b. pack_string other = Inr b)"
    using o by (simp add: pack_string_def pack_H_def)
  then show "build_login other s = Inl StructError"
    by (auto simp: build_login_def p)
  from \<open>pack_string other = Inl StructError \<or> (\<exists>b. pack_string other = Inr
      b)\<close>
  show "build_download_request other s = Inl StructError"
    by (auto simp: build_download_request_def p)
qed

theorem pack_string_not_total_witness:
  "encode_utf8 [104, 233, 8364] = Inr [104, 195, 169, 226, 130, 172]
   \<and> length [104, 195, 169, 226, 130, 172 :: byte] \<le> 65535
   \<and> pack_string [104, 233, 8364] = Inr [0, 6, 104, 195, 169, 226, 130, 172]
   \<and> unpack_string [0, 6, 104, 195, 169, 226, 130, 172] 0 = Inr ([104, 233, 8364], 8)
   \<and> encode_utf8 (replicate 65536 97) = Inr (replicate 65536 97)
   \<and> 65535 < length (replicate 65536 97 :: bytes)
   \<and> pack_string (replicate 65536 97) = Inl StructError
   \<and> encode_utf8 [98] = Inr [98]
   \<and> build_login [98] (replicate 65536 97) = Inl StructError"
proof -
  have h1: "encode_utf8 [104, 233, 8364] = Inr [104, 195, 169, 226, 130, 172]"
    by (simp add: encode_cp_def)
  have h2: "encode_utf8 (replicate 65536 97) = Inr (replicate 65536 97)"
    by (rule encode_utf8_ascii)
  have h3: "encode_utf8 [98] = Inr [98]"
    by (simp add: encode_cp_def)
  show ?thesis
    using pack_string_not_total [OF h1, of "[]"] pack_string_not_total [OF h2, of "[98]"]
      h1 h2 h3
    by simp
qed

section \<open>Properties of the dispatcher\<close>

lemma remove_waiter_filter:
  "distinct (map snd ws) \<Longrightarrow> remove_waiter fut ws = filter (\<lambda>w. snd w
      \<noteq> fut) ws"
proof (induction ws)
  case Nil
  then show ?case by simp
next
  case (Cons w ws)
  obtain p f where w: "w = (p, f)" by (cases w)
  show ?case
  proof (cases "f = fut")
    case True
    with Cons.prems w have "\<forall>x \<in> set ws. snd x \<noteq> fut" by auto
    then have "filter (\<lambda>w. snd w \<noteq> fut) ws = ws" by (simp add: filter_id_conv)
    with True w show ?thesis by simp
  next
    case False
    with Cons w show ?thesis by simp
  qed
qed

lemma notify_waiters_other_fields:
  "simulate (notify_waiters msg ws st) = simulate st
   \<and> conn (notify_waiters msg ws st) = conn st
   \<and> sent (notify_waiters msg ws st) = sent st
   \<and> next_future (notify_waiters msg ws st) = next_future st
   \<and> listeners (notify_waiters msg ws st) = listeners st
   \<and> listener_calls (notify_waiters msg ws st) = listener_calls st"
  by (induction msg ws st rule: notify_waiters.induct) simp_all

lemma notify_waiters_futures:
  "distinct (map snd ws) \<Longrightarrow>
   futures (notify_waiters msg ws st) f
     = (if \<exists>w \<in> set ws. snd w = f \<and> accepts msg st w then Result msg else futures
         st f)"
proof (induction msg ws st rule: notify_waiters.induct)
  case (1 msg st)
  then show ?case by simp
next
  case (2 msg pred fut ws st)
  let ?hit = "\<not> fut_done (futures st fut) \<and> pred msg"
  let ?st1 = "if ?hit then st\<lparr>futures := (futures st)(fut := Result msg),
                message_waiters := remove_waiter fut (message_waiters st)\<rparr> else st"
  from "2.prems" have d: "distinct (map snd ws)" and nf: "\<forall>w \<in> set ws. snd w \<noteq>
      fut"
    by auto
  have same: "\<forall>w \<in> set ws. accepts msg ?st1 w = accepts msg st w"
    using nf by (auto simp: accepts_def)
  have ih: "futures (notify_waiters msg ws ?st1) f
     = (if \<exists>w \<in> set ws. snd w = f \<and> accepts msg ?st1 w then Result msg else
         futures ?st1 f)"
    by (rule "2.IH" [OF d])
  show ?case
  proof (cases "f = fut")
    case True
    then have "\<not> (\<exists>w \<in> set ws. snd w = f \<and> accepts msg ?st1 w)" using nf by
        auto
    then show ?thesis using ih True nf by (auto simp: accepts_def)
  next
    case False
    then show ?thesis using ih same by (auto simp: accepts_def)
  qed
qed

lemma notify_waiters_waiters:
  "distinct (map snd ws) \<Longrightarrow> distinct (map snd (message_waiters st)) \<Longrightarrow>
   message_waiters (notify_waiters msg ws st)
     = filter (\<lambda>v. \<not> (\<exists>w \<in> set ws. snd w = snd v \<and> accepts msg st
         w)) (message_waiters st)"
proof (induction msg ws st rule: notify_waiters.induct)
  case (1 msg st)
  then show ?case by simp
next
  case (2 msg pred fut ws st)
  let ?hit = "\<not> fut_done (futures st fut) \<and> pred msg"
  let ?st1 = "if ?hit then st\<lparr>futures := (futures st)(fut := Result msg),
                message_waiters := remove_waiter fut (message_waiters st)\<rparr> else st"
  from "2.prems" have d: "distinct (map snd ws)" and nf: "\<forall>w \<in> set ws. snd w \<noteq>
      fut"
    by auto
  have same: "\<forall>w \<in> set ws. accepts msg ?st1 w = accepts msg st w"
    using nf by (auto simp: accepts_def)
  have rw: "remove_waiter fut (message_waiters st)
      = filter (\<lambda>w. snd w \<noteq> fut) (message_waiters st)"
    by (rule remove_waiter_filter) (rule "2.prems")
  have d1: "distinct (map snd (message_waiters ?st1))"
    using "2.prems"(2) by (simp add: rw distinct_map_filter)
  have ih: "message_waiters (notify_waiters msg ws ?st1)
     = filter (\<lambda>v. \<not> (\<exists>w \<in> set ws. snd w = snd v \<and> accepts msg ?st1
         w))
         (message_waiters ?st1)"
    by (rule "2.IH" [OF d d1])
  have ih': "message_waiters (notify_waiters msg ws ?st1)
     = filter (\<lambda>v. \<not> (\<exists>w \<in> set ws. snd w = snd v \<and> accepts msg st w))
         (message_waiters ?st1)"
    unfolding ih using same by (intro filter_cong) auto
  have step: "notify_waiters msg ((pred, fut) # ws) st = notify_waiters msg ws ?st1"
    by simp
  show ?case
  proof (cases ?hit)
    case True
    then have m1: "message_waiters ?st1 = filter (\<lambda>w. snd w \<noteq> fut) (message_waiters
        st)"
      by (simp add: rw)
    have "message_waiters (notify_waiters msg ((pred, fut) # ws) st)
        = filter (\<lambda>v. \<not> (\<exists>w \<in> set ws. snd w = snd v \<and> accepts msg st
            w))
            (filter (\<lambda>w. snd w \<noteq> fut) (message_waiters st))"
      unfolding step ih' m1 ..
    also have "\<dots> = filter (\<lambda>v. \<not> (\<exists>w \<in> set ((pred, fut) # ws). snd
        w = snd v \<and> accepts msg st w))
            (message_waiters st)"
      using True by (auto simp: accepts_def intro!: filter_cong)
    finally show ?thesis .
  next
    case False
    then have m1: "message_waiters ?st1 = message_waiters st"
      by auto
    have "message_waiters (notify_waiters msg ((pred, fut) # ws) st)
        = filter (\<lambda>v. \<not> (\<exists>w \<in> set ws. snd w = snd v \<and> accepts msg st
            w)) (message_waiters st)"
      unfolding step ih' m1 ..
    also have "\<dots> = filter (\<lambda>v. \<not> (\<exists>w \<in> set ((pred, fut) # ws). snd
        w = snd v \<and> accepts msg st w))
            (message_waiters st)"
      using False by (auto simp: accepts_def intro!: filter_cong)
    finally show ?thesis .
  qed
qed

lemma dispatch_message_futures:
  assumes "distinct (map snd (message_waiters st))"
  shows "futures (dispatch_message msg st) f
     = (if \<exists>w \<in> set (message_waiters st). snd w = f \<and> accepts msg st w
        then Result msg else futures st f)"
  using notify_waiters_futures [OF assms, of msg st f]
  by (simp add: dispatch_message_def Let_def)

lemma dispatch_message_waiters:
  assumes "distinct (map snd (message_waiters st))"
  shows "message_waiters (dispatch_message msg st)
     = filter (\<lambda>w. \<not> accepts msg st w) (message_waiters st)"
proof -
  have "message_waiters (dispatch_message msg st)
     = filter (\<lambda>v. \<not> (\<exists>w \<in> set (message_waiters st). snd w = snd v \<and>
         accepts msg st w))
         (message_waiters st)"
    using notify_waiters_waiters [OF assms assms, of msg]
    by (simp add: dispatch_message_def Let_def)
  also have "\<dots> = filter (\<lambda>w. \<not> accepts msg st w) (message_waiters st)"
  proof (rule filter_cong [OF refl])
    fix v assume v: "v \<in> set (message_waiters st)"
    have "\<And>w. w \<in> set (message_waiters st) \<Longrightarrow> snd w = snd v
        \<Longrightarrow> w = v"
      using assms v by (meson distinct_map inj_onD)
    then show "(\<not> (\<exists>w \<in> set (message_waiters st). snd w = snd v \<and> accepts
        msg st w))
        = (\<not> accepts msg st v)"
      using v by auto
  qed
  finally show ?thesis .
qed

text \<open>
  C1 (as the code has it). The waiter loop has no first-match rule: for every message
  and every set of pending waits (each with a future of its own), every wait whose future
  is not done and whose predicate accepts the message receives the message and is removed
  from the pending list; every other wait stays in the list, in registration order, with
  its future unchanged.
\<close>

theorem dispatch_fulfils_every_match:
  assumes d: "distinct (map snd (message_waiters st))"
  shows "message_waiters (dispatch_message msg st)
           = filter (\<lambda>w. \<not> accepts msg st w) (message_waiters st)
         \<and> (\<forall>w \<in> set (message_waiters st).
               futures (dispatch_message msg st) (snd w)
                 = (if accepts msg st w then Result msg else futures st (snd w)))"
proof
  show "message_waiters (dispatch_message msg st)
           = filter (\<lambda>w. \<not> accepts msg st w) (message_waiters st)"
    by (rule dispatch_message_waiters [OF d])
  show "\<forall>w \<in> set (message_waiters st).
               futures (dispatch_message msg st) (snd w)
                 = (if accepts msg st w then Result msg else futures st (snd w))"
  proof
    fix v assume v: "v \<in> set (message_waiters st)"
    have u: "\<And>w. w \<in> set (message_waiters st) \<Longrightarrow> snd w = snd v
        \<Longrightarrow> w = v"
      using d v by (meson distinct_map inj_onD)
    have "(\<exists>w \<in> set (message_waiters st). snd w = snd v \<and> accepts msg st w)
        = accepts msg st v"
      using u v by auto
    then show "futures (dispatch_message msg st) (snd v)
                 = (if accepts msg st v then Result msg else futures st (snd v))"
      by (simp add: dispatch_message_futures [OF d])
  qed
qed

theorem dispatch_fulfils_every_match_witness:
  "distinct (map snd (message_waiters three_waits))
   \<and> map snd (message_waiters three_waits) = [0, 1, 2]
   \<and> map snd (message_waiters (dispatch_message \<lparr>code = 3, payload = []\<rparr>
       three_waits)) = [0]
   \<and> futures (dispatch_message \<lparr>code = 3, payload = []\<rparr> three_waits) 0 = Pending
   \<and> futures (dispatch_message \<lparr>code = 3, payload = []\<rparr> three_waits) 1
       = Result \<lparr>code = 3, payload = []\<rparr>
   \<and> futures (dispatch_message \<lparr>code = 3, payload = []\<rparr> three_waits) 2
       = Result \<lparr>code = 3, payload = []\<rparr>"
proof -
  have w: "message_waiters three_waits = [(code_is 2, 0), (login_reply, 1), (code_is 3, 2)]"
    by (simp add: three_waits_def two_waits_def wait_begin_def SoulseekClient_init_def Let_def)
  have f: "futures three_waits 0 = Pending" "futures three_waits (Suc 0) = Pending"
    "futures three_waits 2 = Pending"
    by (simp_all add: three_waits_def two_waits_def wait_begin_def SoulseekClient_init_def
        Let_def)
  have d: "distinct (map snd (message_waiters three_waits))"
    by (simp add: w)
  show ?thesis
    using dispatch_fulfils_every_match [OF d, of "\<lparr>code = 3, payload = []\<rparr>"] d
    by (simp add: w f accepts_def code_is_def login_reply_def MSG_LOGIN_OK_def
        MSG_LOGIN_ERROR_def)
qed

text \<open>The claim as written fails: with two pending waits whose predicates both accept a
  message, one dispatch fulfils both and leaves no wait pending.\<close>

theorem dispatch_first_match_counterexample:
  "message_waiters two_waits = [(code_is 2, 0), (login_reply, 1)]
   \<and> futures two_waits 0 = Pending \<and> futures two_waits 1 = Pending
   \<and> futures (dispatch_message \<lparr>code = 2, payload = []\<rparr> two_waits) 0
       = Result \<lparr>code = 2, payload = []\<rparr>
   \<and> futures (dispatch_message \<lparr>code = 2, payload = []\<rparr> two_waits) 1
       = Result \<lparr>code = 2, payload = []\<rparr>
   \<and> message_waiters (dispatch_message \<lparr>code = 2, payload = []\<rparr> two_waits) = []"
  by (simp add: two_waits_def wait_begin_def SoulseekClient_init_def Let_def
      dispatch_message_def code_is_def login_reply_def MSG_LOGIN_OK_def MSG_LOGIN_ERROR_def)

section \<open>Properties of the wait primitive and of the login handshake\<close>

lemma dispatch_message_distinct:
  assumes "distinct (map snd (message_waiters st))"
  shows "distinct (map snd (message_waiters (dispatch_message msg st)))"
  using assms by (simp add: dispatch_message_waiters [OF assms] distinct_map_filter)

lemma fold_dispatch_absent:
  "distinct (map snd (message_waiters st)) \<Longrightarrow> f \<notin> snd ` set (message_waiters
      st) \<Longrightarrow>
   futures (fold dispatch_message msgs st) f = futures st f"
proof (induction msgs arbitrary: st)
  case Nil
  then show ?case by simp
next
  case (Cons m ms)
  note d = Cons.prems(1)
  have a: "f \<notin> snd ` set (message_waiters (dispatch_message m st))"
    using Cons.prems(2) by (auto simp: dispatch_message_waiters [OF d])
  have "futures (dispatch_message m st) f = futures st f"
    using Cons.prems(2) by (auto simp: dispatch_message_futures [OF d])
  then show ?case
    using Cons.IH [OF dispatch_message_distinct [OF d] a] by simp
qed

lemma fold_dispatch_pending:
  "distinct (map snd (message_waiters st)) \<Longrightarrow> (p, f) \<in> set (message_waiters st)
      \<Longrightarrow>
   futures st f = Pending \<Longrightarrow>
   futures (fold dispatch_message msgs st) f
     = (case find p msgs of None \<Rightarrow> Pending | Some m \<Rightarrow> Result m)"
proof (induction msgs arbitrary: st)
  case Nil
  then show ?case by simp
next
  case (Cons m ms)
  note d = Cons.prems(1)
  note d' = dispatch_message_distinct [OF d, of m]
  have u: "\<And>w. w \<in> set (message_waiters st) \<Longrightarrow> snd w = f \<Longrightarrow>
      w = (p, f)"
    using d Cons.prems(2) by (metis distinct_map inj_onD snd_conv)
  have acc: "(\<exists>w \<in> set (message_waiters st). snd w = f \<and> accepts m st w) = p m"
  proof
    assume "\<exists>w \<in> set (message_waiters st). snd w = f \<and> accepts m st w"
    then obtain w where "w \<in> set (message_waiters st)" "snd w = f" "accepts m st w" by blast
    then show "p m" using u [of w] by (simp add: accepts_def)
  next
    assume "p m"
    then have "accepts m st (p, f)" using Cons.prems(3) by (simp add: accepts_def)
    then show "\<exists>w \<in> set (message_waiters st). snd w = f \<and> accepts m st w"
      using Cons.prems(2) by force
  qed
  show ?case
  proof (cases "p m")
    case True
    have r: "futures (dispatch_message m st) f = Result m"
      using acc True by (simp add: dispatch_message_futures [OF d])
    have "f \<notin> snd ` set (message_waiters (dispatch_message m st))"
    proof
      assume "f \<in> snd ` set (message_waiters (dispatch_message m st))"
      then obtain w where w: "w \<in> set (message_waiters st)" "\<not> accepts m st w" "snd w = f"
        by (auto simp: dispatch_message_waiters [OF d])
      then have "w = (p, f)" using u by blast
      then show False using w True Cons.prems(3) by (simp add: accepts_def)
    qed
    then have "futures (fold dispatch_message ms (dispatch_message m st)) f = Result m"
      using fold_dispatch_absent [OF d'] r by simp
    then show ?thesis using True by simp
  next
    case False
    have pend: "futures (dispatch_message m st) f = Pending"
      using acc False Cons.prems(3) by (simp add: dispatch_message_futures [OF d])
    have "\<not> accepts m st (p, f)" using False by (simp add: accepts_def)
    then have mem: "(p, f) \<in> set (message_waiters (dispatch_message m st))"
      using Cons.prems(2) by (simp add: dispatch_message_waiters [OF d])
    show ?thesis
      using Cons.IH [OF d' mem pend] False by simp
  qed
qed

lemma wait_for_message_result:
  assumes "waiters_ok st"
  shows "fst (wait_for_message p msgs st)
     = (case find p msgs of None \<Rightarrow> Inl TimeoutError | Some m \<Rightarrow> Inr m)"
proof -
  let ?f = "next_future st"
  let ?st' = "st\<lparr>futures := (futures st)(?f := Pending), next_future := Suc ?f,
                message_waiters := message_waiters st @ [(p, ?f)]\<rparr>"
  have d: "distinct (map snd (message_waiters ?st'))"
    using assms by (auto simp: waiters_ok_def)
  have m: "(p, ?f) \<in> set (message_waiters ?st')" by simp
  have pe: "futures ?st' ?f = Pending" by simp
  have "futures (fold dispatch_message msgs ?st') ?f
      = (case find p msgs of None \<Rightarrow> Pending | Some m \<Rightarrow> Result m)"
    by (rule fold_dispatch_pending [OF d m pe])
  then show ?thesis
    by (simp add: wait_for_message_def wait_begin_def wait_end_def Let_def
        split: option.splits)
qed

lemma send_waiters_ok: "send data st = Inr st1 \<Longrightarrow> waiters_ok st \<Longrightarrow>
    waiters_ok st1"
  by (fastforce simp: send_def waiters_ok_def split: if_splits)

lemma build_login_example:
  "build_login [97] [98] = Inr [0, 0, 0, 7, 1, 0, 1, 97, 0, 1, 98]"
  by (simp add: build_login_def pack_string_def encode_cp_def pack_H_def pack_message_def
      pack_I_def pack_B_def MSG_LOGIN_def)

text \<open>
  C3 (as the code has it). For every call to \<open>authenticate\<close> on a client whose waiter
      list
  is well formed: if the login frame cannot be built or cannot be sent, that error is
  raised; otherwise the first message with code \<open>MSG_LOGIN_OK\<close> or
      \<open>MSG_LOGIN_ERROR\<close>
  dispatched within the timeout decides: the call returns \<open>True\<close> when it is
  \<open>MSG_LOGIN_OK\<close> and raises \<open>AuthenticationError\<close> when it is
      \<open>MSG_LOGIN_ERROR\<close>. When no
  such message arrives within the timeout the call raises \<open>asyncio.TimeoutError\<close>; no
  outcome raises \<open>ProtocolError\<close>.
\<close>

theorem authenticate_outcomes:
  assumes ok: "waiters_ok st"
  shows "fst (authenticate username password msgs st)
     = (case build_login username password of
          Inl e \<Rightarrow> Inl e
        | Inr data \<Rightarrow>
            (case send data st of
               Inl e \<Rightarrow> Inl e
             | Inr st1 \<Rightarrow>
                 (case find login_reply msgs of
                    None \<Rightarrow> Inl TimeoutError
                  | Some m \<Rightarrow>
                      if code m = MSG_LOGIN_OK then Inr True else Inl AuthenticationError)))"
proof (cases "build_login username password")
  case (Inl e)
  then show ?thesis by (simp add: authenticate_def)
next
  case (Inr data)
  show ?thesis
  proof (cases "send data st")
    case (Inl e)
    then show ?thesis using Inr by (simp add: authenticate_def)
  next
    case st1: (Inr st1)
    have w: "fst (wait_for_message login_reply msgs st1)
        = (case find login_reply msgs of None \<Rightarrow> Inl TimeoutError | Some m
            \<Rightarrow> Inr m)"
      by (rule wait_for_message_result [OF send_waiters_ok [OF st1 ok]])
    show ?thesis
    proof (cases "find login_reply msgs")
      case None
      then show ?thesis using Inr st1 w
        by (auto simp: authenticate_def split: prod.splits sum.splits)
    next
      case (Some m)
      then have "login_reply m" by (auto simp: find_Some_iff)
      then show ?thesis using Inr st1 w Some
        by (auto simp: authenticate_def login_reply_def split: prod.splits sum.splits)
    qed
  qed
qed

theorem authenticate_outcomes_witness:
  "waiters_ok (SoulseekClient_init\<lparr>conn := True\<rparr>)
   \<and> fst (authenticate [97] [98]
            [\<lparr>code = 17, payload = []\<rparr>, \<lparr>code = 2, payload = []\<rparr>,
             \<lparr>code = 3, payload = []\<rparr>]
            (SoulseekClient_init\<lparr>conn := True\<rparr>)) = Inr True
   \<and> fst (authenticate [97] [98]
            [\<lparr>code = 3, payload = []\<rparr>, \<lparr>code = 2, payload = []\<rparr>]
            (SoulseekClient_init\<lparr>conn := True\<rparr>)) = Inl AuthenticationError
   \<and> fst (authenticate [97] [98] [] SoulseekClient_init) = Inl ConnectionClosedError"
proof -
  have ok: "waiters_ok (SoulseekClient_init\<lparr>conn := True\<rparr>)"
    by (simp add: waiters_ok_def SoulseekClient_init_def)
  have ok0: "waiters_ok SoulseekClient_init"
    by (simp add: waiters_ok_def SoulseekClient_init_def)
  have s: "send [0, 0, 0, 7, 1, 0, 1, 97, 0, 1, 98] (SoulseekClient_init\<lparr>conn :=
      True\<rparr>)
      = Inr (SoulseekClient_init\<lparr>conn := True, sent := [[0, 0, 0, 7, 1, 0, 1, 97, 0, 1,
          98]]\<rparr>)"
    by (simp add: send_def SoulseekClient_init_def)
  have s0: "send [0, 0, 0, 7, 1, 0, 1, 97, 0, 1, 98] SoulseekClient_init
      = Inl ConnectionClosedError"
    by (simp add: send_def SoulseekClient_init_def)
  show ?thesis
    using ok
      authenticate_outcomes [OF ok, of "[97]" "[98]"
        "[\<lparr>code = 17, payload = []\<rparr>, \<lparr>code = 2, payload = []\<rparr>,
          \<lparr>code = 3, payload = []\<rparr>]"]
      authenticate_outcomes [OF ok, of "[97]" "[98]"
        "[\<lparr>code = 3, payload = []\<rparr>, \<lparr>code = 2, payload = []\<rparr>]"]
      authenticate_outcomes [OF ok0, of "[97]" "[98]" "[]"]
    by (simp add: build_login_example s s0 login_reply_def MSG_LOGIN_OK_def
        MSG_LOGIN_ERROR_def)
qed

text \<open>The claim as written fails: when the timeout expires with no login reply (here
  only a search result arrives) the error raised is the timeout error, not a protocol
  error.\<close>

theorem authenticate_timeout_counterexample:
  "fst (authenticate [97] [98] [\<lparr>code = 17, payload = []\<rparr>]
          (SoulseekClient_init\<lparr>conn := True\<rparr>)) = Inl TimeoutError"
  by (simp add: authenticate_def build_login_example send_def SoulseekClient_init_def
      wait_for_message_def wait_begin_def wait_end_def dispatch_message_def Let_def
      login_reply_def MSG_LOGIN_OK_def MSG_LOGIN_ERROR_def)

section \<open>Properties of the search\<close>

subsection \<open>The listener\<close>


lemma reply_example:
  "decode_search_result [0, 3, 65, 66, 67, 0, 1, 117, 0, 1, 102, 1, 0, 1, 120, 0, 0, 0, 5]
     = Inr \<lparr>d_query = [65, 66, 67], d_user = [117], d_folder = [102], d_files = [([120],
         5)]\<rparr>"
  by (simp add: decode_search_result_def unpack_string_def unpack_from_H_def unpack_from_B_def
      unpack_from_I_def be_nat_simps utf8_first_def Let_def)





subsection \<open>The subscription of a search\<close>

lemma listeners_for_register:
  "listeners_for c (register_listener c cb st) = listeners_for c st @ [cb]"
  by (simp add: listeners_for_def register_listener_def)

lemma listeners_for_unregister:
  "listeners_for c (unregister_listener c cb st) = filter (\<lambda>x. x \<noteq> cb)
      (listeners_for c st)"
  by (simp add: listeners_for_def unregister_listener_def split: option.splits)

lemma listeners_for_dispatch:
  "listeners_for c (dispatch_message msg st) = listeners_for c st"
  by (simp add: listeners_for_def dispatch_message_def Let_def notify_waiters_other_fields)

lemma listeners_for_send:
  "send data st = Inr st' \<Longrightarrow> listeners_for c st' = listeners_for c st"
  by (auto simp add: listeners_for_def send_def split: if_splits)

lemma listeners_for_finish:
  "listeners_for MSG_SEARCH_RESULT (fst (finish cb cs))
     = filter (\<lambda>x. x \<noteq> cb) (listeners_for MSG_SEARCH_RESULT (fst cs))"
  "gen (snd (finish cb cs)) = Finished"
  by (simp_all add: finish_def listeners_for_unregister)

lemma filter_fresh: "cb \<notin> set l \<Longrightarrow> filter (\<lambda>x. x \<noteq> cb) l = l"
  by (induction l) auto

lemma gen_listener: "gen (listener lower q msg s) = gen s"
  by (simp add: listener_def split: sum.splits)

lemma gen_listener_pow: "gen ((listener lower q msg ^^ n) s) = gen s"
  by (induction n) (simp_all add: gen_listener)

lemma deliver_fields:
  "listeners_for c (fst (deliver lower cb q msg cs)) = listeners_for c (fst cs)"
  "gen (snd (deliver lower cb q msg cs)) = gen (snd cs)"
  by (simp_all add: deliver_def listeners_for_dispatch gen_listener_pow)

lemma loop_turn_inv:
  assumes fresh: "cb \<notin> set l0"
    and reg: "listeners_for MSG_SEARCH_RESULT (fst cs) = l0 @ [cb]"
  shows "(running (gen (snd (fst (loop_turn cb stop now cs)))) \<longrightarrow>
            listeners_for MSG_SEARCH_RESULT (fst (fst (loop_turn cb stop now cs))) = l0 @ [cb])
       \<and> (\<not> running (gen (snd (fst (loop_turn cb stop now cs)))) \<longrightarrow>
            listeners_for MSG_SEARCH_RESULT (fst (fst (loop_turn cb stop now cs))) = l0)"
  using fresh reg
  by (simp add: loop_turn_def listeners_for_finish filter_fresh split: list.splits)

lemma search_step_inv:
  assumes fresh: "cb \<notin> set l0"
    and inv: "(running (gen (snd cs)) \<longrightarrow> listeners_for MSG_SEARCH_RESULT (fst cs) =
        l0 @ [cb])
            \<and> (\<not> running (gen (snd cs)) \<longrightarrow> listeners_for
                MSG_SEARCH_RESULT (fst cs) = l0)"
  shows "(running (gen (snd (fst (search_step lower cb q timeout cs ev)))) \<longrightarrow>
            listeners_for MSG_SEARCH_RESULT (fst (fst (search_step lower cb q timeout cs ev)))
              = l0 @ [cb])
       \<and> (\<not> running (gen (snd (fst (search_step lower cb q timeout cs ev))))
           \<longrightarrow>
            listeners_for MSG_SEARCH_RESULT (fst (fst (search_step lower cb q timeout cs ev)))
              = l0)"
proof (cases ev)
  case (Anext now0 now)
  show ?thesis
  proof (cases "gen (snd cs)")
    case NotStarted
    let ?c1 = "register_listener MSG_SEARCH_RESULT cb (fst cs)"
    have r: "listeners_for MSG_SEARCH_RESULT ?c1 = l0 @ [cb]"
      using inv NotStarted by (simp add: listeners_for_register)
    show ?thesis
    proof (cases "build_search q")
      case (Inl e)
      then show ?thesis using Anext NotStarted r fresh
        by (simp add: listeners_for_finish filter_fresh)
    next
      case (Inr data)
      show ?thesis
      proof (cases "send data ?c1")
        case (Inl e)
        then show ?thesis using Anext NotStarted Inr r fresh
          by (simp add: listeners_for_finish filter_fresh)
      next
        case (Inr c2)
        have "listeners_for MSG_SEARCH_RESULT (fst (c2, snd cs)) = l0 @ [cb]"
          using listeners_for_send [OF Inr] r by simp
        from loop_turn_inv [OF fresh this]
        show ?thesis using Anext NotStarted \<open>build_search q = Inr data\<close> Inr by simp
      qed
    qed
  next
    case (Suspended stop)
    have "listeners_for MSG_SEARCH_RESULT (fst cs) = l0 @ [cb]" using inv Suspended by simp
    from loop_turn_inv [OF fresh this]
    show ?thesis using Anext Suspended by simp
  next
    case (Waiting stop)
    then show ?thesis using Anext inv by simp
  next
    case Finished
    then show ?thesis using Anext inv by simp
  qed
next
  case (Dispatch msg)
  let ?cs' = "deliver lower cb q msg cs"
  have d: "listeners_for MSG_SEARCH_RESULT (fst ?cs') = listeners_for MSG_SEARCH_RESULT (fst cs)"
      "gen (snd ?cs') = gen (snd cs)"
    by (simp_all add: deliver_fields)
  show ?thesis using Dispatch inv d
    by (cases "gen (snd cs)") (simp_all add: Let_def split: list.splits)
next
  case Timeout
  show ?thesis using Timeout inv fresh
    by (cases "gen (snd cs)") (simp_all add: listeners_for_finish filter_fresh)
next
  case Aclose
  show ?thesis using Aclose inv fresh
    by (cases "gen (snd cs)") (simp_all add: listeners_for_finish filter_fresh)
next
  case (Athrow e)
  show ?thesis using Athrow inv fresh
    by (cases "gen (snd cs)") (simp_all add: listeners_for_finish filter_fresh)
next
  case Cancel
  show ?thesis using Cancel inv fresh
    by (cases "gen (snd cs)") (simp_all add: listeners_for_finish filter_fresh)
qed

lemma search_run_inv:
  assumes fresh: "cb \<notin> set l0"
  shows "(running (gen (snd cs)) \<longrightarrow> listeners_for MSG_SEARCH_RESULT (fst cs) = l0 @
      [cb])
            \<and> (\<not> running (gen (snd cs)) \<longrightarrow> listeners_for
                MSG_SEARCH_RESULT (fst cs) = l0)
    \<Longrightarrow> (running (gen (snd (fst (search_run lower cb q timeout evs cs))))
        \<longrightarrow>
            listeners_for MSG_SEARCH_RESULT (fst (fst (search_run lower cb q timeout evs cs)))
              = l0 @ [cb])
       \<and> (\<not> running (gen (snd (fst (search_run lower cb q timeout evs cs))))
           \<longrightarrow>
            listeners_for MSG_SEARCH_RESULT (fst (fst (search_run lower cb q timeout evs cs)))
              = l0)"
proof (induction evs arbitrary: cs)
  case Nil
  then show ?case by simp
next
  case (Cons ev evs)
  obtain cs' out where st: "search_step lower cb q timeout cs ev = (cs', out)"
    by (cases "search_step lower cb q timeout cs ev")
  obtain cs'' outs where rn: "search_run lower cb q timeout evs cs' = (cs'', outs)"
    by (cases "search_run lower cb q timeout evs cs'")
  have "(running (gen (snd cs')) \<longrightarrow> listeners_for MSG_SEARCH_RESULT (fst cs') = l0
      @ [cb])
            \<and> (\<not> running (gen (snd cs')) \<longrightarrow> listeners_for
                MSG_SEARCH_RESULT (fst cs') = l0)"
    using search_step_inv [OF fresh Cons.prems, of lower q timeout ev] st by simp
  from Cons.IH [OF this] show ?case using st rn by simp
qed

lemma build_search_example:
  "build_search [97, 98, 99] = Inr [0, 0, 0, 6, 16, 0, 3, 97, 98, 99]"
  by (simp add: build_search_def pack_string_def pack_H_def encode_cp_def pack_message_def
      pack_I_def pack_B_def MSG_SEARCH_REQUEST_def)

text \<open>
  C7. A search whose listener \<open>cb\<close> is not in the table yet, driven by any sequence of
  events from its creation. While the generator runs (from its first step until it
  finishes) the table for the search-result code is the table it found with \<open>cb\<close>
      appended:
  exactly one subscription of \<open>cb\<close>. Whenever it is not running (never started, or
      finished)
  the table is the one it found, without \<open>cb\<close>. The first step registers before it
      builds and
  sends the request; when building or sending fails, the error is raised through the
  \<open>finally\<close> clause. Every way out of the running generator goes through the
      \<open>finally\<close>
  clause: the timeout of the wait for the queue, a cancellation of that wait, a request
  after the deadline, a close of the generator at its \<open>yield\<close> (by the consumer, or
      for an
  abandoned generator by the event loop) and an exception thrown in at the \<open>yield\<close>.
      After
  the \<open>finally\<close> clause the generator is finished and \<open>cb\<close> is not in the
      table.
\<close>

theorem search_unregisters_listener:
  assumes fresh: "cb \<notin> set (listeners_for MSG_SEARCH_RESULT c)"
    and start: "gen s = NotStarted"
    and run: "search_run lower cb q timeout evs (c, s) = ((c', s'), outs)"
  shows "(running (gen s') \<longrightarrow>
            listeners_for MSG_SEARCH_RESULT c' = listeners_for MSG_SEARCH_RESULT c @ [cb]
            \<and> count_list (listeners_for MSG_SEARCH_RESULT c') cb = 1)
    \<and> (\<not> running (gen s') \<longrightarrow>
            listeners_for MSG_SEARCH_RESULT c' = listeners_for MSG_SEARCH_RESULT c
            \<and> cb \<notin> set (listeners_for MSG_SEARCH_RESULT c'))
    \<and> (gen s' = NotStarted \<and> build_search q = Inr data
          \<and> send data (register_listener MSG_SEARCH_RESULT cb c') = Inr c2
          \<and> now < now0 + timeout \<longrightarrow>
         running (gen (snd (fst (search_step lower cb q timeout (c', s') (Anext now0 now))))))
    \<and> (gen s' = NotStarted \<and> build_search q = Inl e \<longrightarrow>
         search_step lower cb q timeout (c', s') (Anext now0 now)
           = (finish cb (register_listener MSG_SEARCH_RESULT cb c', s'), Raise e))
    \<and> (gen s' = NotStarted \<and> build_search q = Inr data
          \<and> send data (register_listener MSG_SEARCH_RESULT cb c') = Inl e \<longrightarrow>
         search_step lower cb q timeout (c', s') (Anext now0 now)
           = (finish cb (register_listener MSG_SEARCH_RESULT cb c', s'), Raise e))
    \<and> (gen s' = Waiting stop \<longrightarrow>
         search_step lower cb q timeout (c', s') Timeout
           = (finish cb (c', s'), StopAsyncIteration)
         \<and> search_step lower cb q timeout (c', s') Cancel
           = (finish cb (c', s'), Raise CancelledError))
    \<and> (gen s' = Suspended stop \<longrightarrow>
         search_step lower cb q timeout (c', s') Aclose = (finish cb (c', s'), NoOutput)
         \<and> search_step lower cb q timeout (c', s') (Athrow e) = (finish cb (c', s'), Raise e)
         \<and> (stop \<le> now \<longrightarrow>
              search_step lower cb q timeout (c', s') (Anext now0 now)
                = (finish cb (c', s'), StopAsyncIteration)))
    \<and> gen (snd (finish cb (c', s'))) = Finished
    \<and> cb \<notin> set (listeners_for MSG_SEARCH_RESULT (fst (finish cb (c', s'))))
    \<and> cb \<notin> set (listeners_for MSG_SEARCH_RESULT
                    (fst (finish cb (register_listener MSG_SEARCH_RESULT cb c', s'))))"
proof -
  let ?l0 = "listeners_for MSG_SEARCH_RESULT c"
  have i0: "(running (gen (snd (c, s))) \<longrightarrow>
              listeners_for MSG_SEARCH_RESULT (fst (c, s)) = ?l0 @ [cb])
          \<and> (\<not> running (gen (snd (c, s))) \<longrightarrow>
              listeners_for MSG_SEARCH_RESULT (fst (c, s)) = ?l0)"
    using start by simp
  have inv: "(running (gen s') \<longrightarrow> listeners_for MSG_SEARCH_RESULT c' = ?l0 @ [cb])
          \<and> (\<not> running (gen s') \<longrightarrow> listeners_for MSG_SEARCH_RESULT c' =
              ?l0)"
    using search_run_inv [OF fresh i0, of lower q timeout evs] run by simp
  have a: "running (gen s') \<longrightarrow>
            listeners_for MSG_SEARCH_RESULT c' = ?l0 @ [cb]
            \<and> count_list (listeners_for MSG_SEARCH_RESULT c') cb = 1"
    using inv fresh by (simp add: count_list_0_iff)
  have b: "\<not> running (gen s') \<longrightarrow>
            listeners_for MSG_SEARCH_RESULT c' = ?l0
            \<and> cb \<notin> set (listeners_for MSG_SEARCH_RESULT c')"
    using inv fresh by simp
  have st: "running (gen (snd (fst (search_step lower cb q timeout (c', s') (Anext now0 now)))))"
    if "gen s' = NotStarted" "build_search q = Inr data"
      "send data (register_listener MSG_SEARCH_RESULT cb c') = Inr c2" "now < now0 + timeout"
    using that by (simp add: loop_turn_def split: list.splits)
  have be: "search_step lower cb q timeout (c', s') (Anext now0 now)
           = (finish cb (register_listener MSG_SEARCH_RESULT cb c', s'), Raise e)"
    if "gen s' = NotStarted" "build_search q = Inl e"
    using that by simp
  have se: "search_step lower cb q timeout (c', s') (Anext now0 now)
           = (finish cb (register_listener MSG_SEARCH_RESULT cb c', s'), Raise e)"
    if "gen s' = NotStarted" "build_search q = Inr data"
      "send data (register_listener MSG_SEARCH_RESULT cb c') = Inl e"
    using that by simp
  have w: "search_step lower cb q timeout (c', s') Timeout
           = (finish cb (c', s'), StopAsyncIteration)
         \<and> search_step lower cb q timeout (c', s') Cancel
           = (finish cb (c', s'), Raise CancelledError)"
    if "gen s' = Waiting stop"
    using that by simp
  have su: "search_step lower cb q timeout (c', s') Aclose = (finish cb (c', s'), NoOutput)
         \<and> search_step lower cb q timeout (c', s') (Athrow e) = (finish cb (c', s'), Raise e)
         \<and> (stop \<le> now \<longrightarrow>
              search_step lower cb q timeout (c', s') (Anext now0 now)
                = (finish cb (c', s'), StopAsyncIteration))"
    if "gen s' = Suspended stop"
    using that by (simp add: loop_turn_def)
  have f1: "gen (snd (finish cb (c', s'))) = Finished" by (simp add: listeners_for_finish)
  have f2: "cb \<notin> set (listeners_for MSG_SEARCH_RESULT (fst (finish cb (c', s'))))"
    by (simp add: listeners_for_finish)
  have f3: "cb \<notin> set (listeners_for MSG_SEARCH_RESULT
                    (fst (finish cb (register_listener MSG_SEARCH_RESULT cb c', s'))))"
    by (simp add: listeners_for_finish)
  show ?thesis
    using a b st be se w su f1 f2 f3 by blast
qed

theorem search_unregisters_listener_witness:
  "0 \<notin> set (listeners_for MSG_SEARCH_RESULT (SoulseekClient_init\<lparr>conn :=
      True\<rparr>))
   \<and> gen search_init = NotStarted
   \<and> search_run ascii_lower 0 [97, 98, 99] 30 [Anext 0 0] ((SoulseekClient_init\<lparr>conn
       := True\<rparr>), search_init)
       = (((register_listener MSG_SEARCH_RESULT 0 (SoulseekClient_init\<lparr>conn :=
           True\<rparr>)\<lparr>sent := [[0, 0, 0, 6, 16, 0, 3, 97, 98, 99]]\<rparr>), \<lparr>gen
           = Waiting 30, queue = [], printed = []\<rparr>), [NoOutput])
   \<and> running (gen \<lparr>gen = Waiting 30, queue = [], printed = []\<rparr>)
   \<and> count_list (listeners_for MSG_SEARCH_RESULT (register_listener MSG_SEARCH_RESULT 0
       (SoulseekClient_init\<lparr>conn := True\<rparr>)\<lparr>sent := [[0, 0, 0, 6, 16, 0, 3,
       97, 98, 99]]\<rparr>)) 0 = 1
   \<and> search_step ascii_lower 0 [97, 98, 99] 30 ((register_listener MSG_SEARCH_RESULT 0
       (SoulseekClient_init\<lparr>conn := True\<rparr>)\<lparr>sent := [[0, 0, 0, 6, 16, 0, 3,
       97, 98, 99]]\<rparr>), \<lparr>gen = Waiting 30, queue = [], printed = []\<rparr>) Timeout
       = (finish 0 ((register_listener MSG_SEARCH_RESULT 0 (SoulseekClient_init\<lparr>conn :=
           True\<rparr>)\<lparr>sent := [[0, 0, 0, 6, 16, 0, 3, 97, 98, 99]]\<rparr>), \<lparr>gen
           = Waiting 30, queue = [], printed = []\<rparr>), StopAsyncIteration)
   \<and> search_run ascii_lower 0 [97, 98, 99] 30 [Anext 0 0, Timeout]
       ((SoulseekClient_init\<lparr>conn := True\<rparr>), search_init)
       = (((unregister_listener MSG_SEARCH_RESULT 0 (register_listener MSG_SEARCH_RESULT 0
           (SoulseekClient_init\<lparr>conn := True\<rparr>)\<lparr>sent := [[0, 0, 0, 6, 16, 0,
           3, 97, 98, 99]]\<rparr>)), \<lparr>gen = Finished, queue = [], printed = []\<rparr>),
           [NoOutput, StopAsyncIteration])
   \<and> \<not> running (gen \<lparr>gen = Finished, queue = [], printed = []\<rparr>)
   \<and> 0 \<notin> set (listeners_for MSG_SEARCH_RESULT (unregister_listener MSG_SEARCH_RESULT 0
       (register_listener MSG_SEARCH_RESULT 0 (SoulseekClient_init\<lparr>conn :=
       True\<rparr>)\<lparr>sent := [[0, 0, 0, 6, 16, 0, 3, 97, 98, 99]]\<rparr>)))
   \<and> search_run ascii_lower 0 [97, 98, 99] 30 [Anext 0 0, Dispatch \<lparr>code = 17, payload
       = [0, 3, 65, 66, 67, 0, 1, 117, 0, 1, 102, 1, 0, 1, 120, 0, 0, 0, 5]\<rparr>]
       ((SoulseekClient_init\<lparr>conn := True\<rparr>), search_init)
       = (((dispatch_message \<lparr>code = 17, payload = [0, 3, 65, 66, 67, 0, 1, 117, 0, 1, 102,
           1, 0, 1, 120, 0, 0, 0, 5]\<rparr> (register_listener MSG_SEARCH_RESULT 0
           (SoulseekClient_init\<lparr>conn := True\<rparr>)\<lparr>sent := [[0, 0, 0, 6, 16, 0,
           3, 97, 98, 99]]\<rparr>)), \<lparr>gen = Suspended 30, queue = [], printed =
           []\<rparr>), [NoOutput, Yield (make_result
            \<lparr>d_query = [65, 66, 67], d_user = [117], d_folder = [102],
             d_files = [([120], 5)]\<rparr> \<lparr>code = 17, payload = [0, 3, 65, 66, 67, 0, 1,
                 117, 0, 1, 102, 1, 0, 1, 120, 0, 0, 0, 5]\<rparr>)])
   \<and> search_step ascii_lower 0 [97, 98, 99] 30 ((dispatch_message \<lparr>code = 17, payload
       = [0, 3, 65, 66, 67, 0, 1, 117, 0, 1, 102, 1, 0, 1, 120, 0, 0, 0, 5]\<rparr>
       (register_listener MSG_SEARCH_RESULT 0 (SoulseekClient_init\<lparr>conn :=
       True\<rparr>)\<lparr>sent := [[0, 0, 0, 6, 16, 0, 3, 97, 98, 99]]\<rparr>)), \<lparr>gen =
       Suspended 30, queue = [], printed = []\<rparr>) Aclose = (finish 0 ((dispatch_message
       \<lparr>code = 17, payload = [0, 3, 65, 66, 67, 0, 1, 117, 0, 1, 102, 1, 0, 1, 120, 0, 0,
       0, 5]\<rparr> (register_listener MSG_SEARCH_RESULT 0 (SoulseekClient_init\<lparr>conn :=
       True\<rparr>)\<lparr>sent := [[0, 0, 0, 6, 16, 0, 3, 97, 98, 99]]\<rparr>)), \<lparr>gen =
       Suspended 30, queue = [], printed = []\<rparr>), NoOutput)
   \<and> 0 \<notin> set (listeners_for MSG_SEARCH_RESULT (fst (finish 0 ((dispatch_message
       \<lparr>code = 17, payload = [0, 3, 65, 66, 67, 0, 1, 117, 0, 1, 102, 1, 0, 1, 120, 0, 0,
       0, 5]\<rparr> (register_listener MSG_SEARCH_RESULT 0 (SoulseekClient_init\<lparr>conn :=
       True\<rparr>)\<lparr>sent := [[0, 0, 0, 6, 16, 0, 3, 97, 98, 99]]\<rparr>)), \<lparr>gen =
       Suspended 30, queue = [], printed = []\<rparr>))))
   \<and> search_run ascii_lower 0 [55296] 30 [] ((SoulseekClient_init\<lparr>conn :=
       True\<rparr>), search_init) = (((SoulseekClient_init\<lparr>conn := True\<rparr>),
       search_init), [])
   \<and> build_search [55296] = Inl UnicodeEncodeError
   \<and> search_step ascii_lower 0 [55296] 30 ((SoulseekClient_init\<lparr>conn := True\<rparr>),
       search_init) (Anext 0 0)
       = (finish 0 (register_listener MSG_SEARCH_RESULT 0 (SoulseekClient_init\<lparr>conn :=
           True\<rparr>), search_init),
          Raise UnicodeEncodeError)
   \<and> search_run ascii_lower 0 [97, 98, 99] 30 [] (SoulseekClient_init, search_init)
       = ((SoulseekClient_init, search_init), [])
   \<and> build_search [97, 98, 99] = Inr [0, 0, 0, 6, 16, 0, 3, 97, 98, 99]
   \<and> send [0, 0, 0, 6, 16, 0, 3, 97, 98, 99] (register_listener MSG_SEARCH_RESULT 0
       SoulseekClient_init) = Inl ConnectionClosedError
   \<and> search_step ascii_lower 0 [97, 98, 99] 30 (SoulseekClient_init, search_init) (Anext 0 0)
       = (finish 0 ((register_listener MSG_SEARCH_RESULT 0 SoulseekClient_init), search_init),
           Raise ConnectionClosedError)
   \<and> 0 \<notin> set (listeners_for MSG_SEARCH_RESULT (fst (finish 0 ((register_listener
       MSG_SEARCH_RESULT 0 SoulseekClient_init), search_init))))"
proof -
  have fresh: "0 \<notin> set (listeners_for MSG_SEARCH_RESULT (SoulseekClient_init\<lparr>conn :=
      True\<rparr>))"
    and fresh0: "0 \<notin> set (listeners_for MSG_SEARCH_RESULT SoulseekClient_init)"
    by (simp_all add: listeners_for_def SoulseekClient_init_def)
  have start: "gen search_init = NotStarted" by (simp add: search_init_def)
  have bs: "build_search [97, 98, 99] = Inr [0, 0, 0, 6, 16, 0, 3, 97, 98, 99]" by (rule
      build_search_example)
  have sd: "send [0, 0, 0, 6, 16, 0, 3, 97, 98, 99] (register_listener MSG_SEARCH_RESULT 0
      (SoulseekClient_init\<lparr>conn := True\<rparr>)) = Inr (register_listener
      MSG_SEARCH_RESULT 0 (SoulseekClient_init\<lparr>conn := True\<rparr>)\<lparr>sent := [[0, 0,
      0, 6, 16, 0, 3, 97, 98, 99]]\<rparr>)"
    by (simp add: send_def register_listener_def SoulseekClient_init_def)
  have r1: "search_run ascii_lower 0 [97, 98, 99] 30 [Anext 0 0] ((SoulseekClient_init\<lparr>conn
      := True\<rparr>), search_init) = (((register_listener MSG_SEARCH_RESULT 0
      (SoulseekClient_init\<lparr>conn := True\<rparr>)\<lparr>sent := [[0, 0, 0, 6, 16, 0, 3, 97,
      98, 99]]\<rparr>), \<lparr>gen = Waiting 30, queue = [], printed = []\<rparr>), [NoOutput])"
    by (simp add: bs sd loop_turn_def search_init_def)
  have r2: "search_run ascii_lower 0 [97, 98, 99] 30 [Anext 0 0, Timeout]
      ((SoulseekClient_init\<lparr>conn := True\<rparr>), search_init)
       = (((unregister_listener MSG_SEARCH_RESULT 0 (register_listener MSG_SEARCH_RESULT 0
           (SoulseekClient_init\<lparr>conn := True\<rparr>)\<lparr>sent := [[0, 0, 0, 6, 16, 0,
           3, 97, 98, 99]]\<rparr>)), \<lparr>gen = Finished, queue = [], printed = []\<rparr>),
           [NoOutput, StopAsyncIteration])"
    by (simp add: bs sd loop_turn_def search_init_def finish_def)
  have cnt: "count_list (listeners_for MSG_SEARCH_RESULT (register_listener MSG_SEARCH_RESULT 0
      (SoulseekClient_init\<lparr>conn := True\<rparr>)\<lparr>sent := [[0, 0, 0, 6, 16, 0, 3, 97,
      98, 99]]\<rparr>)) 0 = Suc 0"
    by (simp add: listeners_for_def register_listener_def SoulseekClient_init_def)
  have dl: "deliver ascii_lower 0 [97, 98, 99] \<lparr>code = 17, payload = [0, 3, 65, 66, 67, 0,
      1, 117, 0, 1, 102, 1, 0, 1, 120, 0, 0, 0, 5]\<rparr> ((register_listener MSG_SEARCH_RESULT 0
      (SoulseekClient_init\<lparr>conn := True\<rparr>)\<lparr>sent := [[0, 0, 0, 6, 16, 0, 3, 97,
      98, 99]]\<rparr>), \<lparr>gen = Waiting 30, queue = [], printed = []\<rparr>)
      = ((dispatch_message \<lparr>code = 17, payload = [0, 3, 65, 66, 67, 0, 1, 117, 0, 1, 102,
          1, 0, 1, 120, 0, 0, 0, 5]\<rparr> (register_listener MSG_SEARCH_RESULT 0
          (SoulseekClient_init\<lparr>conn := True\<rparr>)\<lparr>sent := [[0, 0, 0, 6, 16, 0, 3,
          97, 98, 99]]\<rparr>)), listener ascii_lower [97, 98, 99] \<lparr>code = 17, payload =
          [0, 3, 65, 66, 67, 0, 1, 117, 0, 1, 102, 1, 0, 1, 120, 0, 0, 0, 5]\<rparr> \<lparr>gen =
          Waiting 30, queue = [], printed = []\<rparr>)"
    using cnt by (simp add: deliver_def MSG_SEARCH_RESULT_def)
  have li: "listener ascii_lower [97, 98, 99] \<lparr>code = 17, payload = [0, 3, 65, 66, 67, 0,
      1, 117, 0, 1, 102, 1, 0, 1, 120, 0, 0, 0, 5]\<rparr> \<lparr>gen = Waiting 30, queue = [],
      printed = []\<rparr>
      = \<lparr>gen = Waiting 30, queue = [make_result
            \<lparr>d_query = [65, 66, 67], d_user = [117], d_folder = [102],
             d_files = [([120], 5)]\<rparr> \<lparr>code = 17, payload = [0, 3, 65, 66, 67, 0, 1,
                 117, 0, 1, 102, 1, 0, 1, 120, 0, 0, 0, 5]\<rparr>], printed = []\<rparr>"
    by (simp add: listener_def reply_example ascii_lower_def)
  have r3: "search_run ascii_lower 0 [97, 98, 99] 30 [Anext 0 0, Dispatch \<lparr>code = 17,
      payload = [0, 3, 65, 66, 67, 0, 1, 117, 0, 1, 102, 1, 0, 1, 120, 0, 0, 0, 5]\<rparr>]
      ((SoulseekClient_init\<lparr>conn := True\<rparr>), search_init)
       = (((dispatch_message \<lparr>code = 17, payload = [0, 3, 65, 66, 67, 0, 1, 117, 0, 1, 102,
           1, 0, 1, 120, 0, 0, 0, 5]\<rparr> (register_listener MSG_SEARCH_RESULT 0
           (SoulseekClient_init\<lparr>conn := True\<rparr>)\<lparr>sent := [[0, 0, 0, 6, 16, 0,
           3, 97, 98, 99]]\<rparr>)), \<lparr>gen = Suspended 30, queue = [], printed =
           []\<rparr>), [NoOutput, Yield (make_result
            \<lparr>d_query = [65, 66, 67], d_user = [117], d_folder = [102],
             d_files = [([120], 5)]\<rparr> \<lparr>code = 17, payload = [0, 3, 65, 66, 67, 0, 1,
                 117, 0, 1, 102, 1, 0, 1, 120, 0, 0, 0, 5]\<rparr>)])"
    by (simp add: bs sd loop_turn_def search_init_def dl li del: deliver_def)
  have r4: "search_run ascii_lower 0 [55296] 30 [] ((SoulseekClient_init\<lparr>conn :=
      True\<rparr>), search_init) = (((SoulseekClient_init\<lparr>conn := True\<rparr>),
      search_init), [])"
    by simp
  have r5: "search_run ascii_lower 0 [97, 98, 99] 30 [] (SoulseekClient_init, search_init)
       = ((SoulseekClient_init, search_init), [])"
    by simp
  have be: "build_search [55296] = Inl UnicodeEncodeError"
    by (simp add: build_search_def pack_string_def encode_cp_def)
  have se: "send [0, 0, 0, 6, 16, 0, 3, 97, 98, 99] (register_listener MSG_SEARCH_RESULT 0
      SoulseekClient_init) = Inl ConnectionClosedError"
    by (simp add: send_def register_listener_def SoulseekClient_init_def)
  note t1 = search_unregisters_listener [OF fresh start r1, where stop = 30]
  note t2 = search_unregisters_listener [OF fresh start r2]
  note t3 = search_unregisters_listener [OF fresh start r3, where stop = 30]
  note t4 = search_unregisters_listener [OF fresh start r4, where e = UnicodeEncodeError
      and now0 = 0 and now = 0]
  note t5 = search_unregisters_listener [OF fresh0 start r5, where e = ConnectionClosedError
      and data = "[0, 0, 0, 6, 16, 0, 3, 97, 98, 99]" and now0 = 0 and now = 0]
  have g: "running (gen \<lparr>gen = Waiting 30, queue = [], printed = []\<rparr>)" "\<not>
      running (gen \<lparr>gen = Finished, queue = [], printed = []\<rparr>)" "gen \<lparr>gen =
      Waiting 30, queue = [], printed = []\<rparr> = Waiting 30"
    "gen \<lparr>gen = Suspended 30, queue = [], printed = []\<rparr> = Suspended 30" by simp_all
  from t1 g have a1: "count_list (listeners_for MSG_SEARCH_RESULT (register_listener
      MSG_SEARCH_RESULT 0 (SoulseekClient_init\<lparr>conn := True\<rparr>)\<lparr>sent := [[0, 0,
      0, 6, 16, 0, 3, 97, 98, 99]]\<rparr>)) 0 = 1" by blast
  from t1 g have a2: "search_step ascii_lower 0 [97, 98, 99] 30 ((register_listener
      MSG_SEARCH_RESULT 0 (SoulseekClient_init\<lparr>conn := True\<rparr>)\<lparr>sent := [[0, 0,
      0, 6, 16, 0, 3, 97, 98, 99]]\<rparr>), \<lparr>gen = Waiting 30, queue = [], printed =
      []\<rparr>) Timeout
       = (finish 0 ((register_listener MSG_SEARCH_RESULT 0 (SoulseekClient_init\<lparr>conn :=
           True\<rparr>)\<lparr>sent := [[0, 0, 0, 6, 16, 0, 3, 97, 98, 99]]\<rparr>), \<lparr>gen
           = Waiting 30, queue = [], printed = []\<rparr>), StopAsyncIteration)" by blast
  from t2 g have a3: "0 \<notin> set (listeners_for MSG_SEARCH_RESULT (unregister_listener
      MSG_SEARCH_RESULT 0 (register_listener MSG_SEARCH_RESULT 0 (SoulseekClient_init\<lparr>conn
      := True\<rparr>)\<lparr>sent := [[0, 0, 0, 6, 16, 0, 3, 97, 98, 99]]\<rparr>)))" by blast
  from t3 g have a4: "search_step ascii_lower 0 [97, 98, 99] 30 ((dispatch_message \<lparr>code =
      17, payload = [0, 3, 65, 66, 67, 0, 1, 117, 0, 1, 102, 1, 0, 1, 120, 0, 0, 0, 5]\<rparr>
      (register_listener MSG_SEARCH_RESULT 0 (SoulseekClient_init\<lparr>conn :=
      True\<rparr>)\<lparr>sent := [[0, 0, 0, 6, 16, 0, 3, 97, 98, 99]]\<rparr>)), \<lparr>gen =
      Suspended 30, queue = [], printed = []\<rparr>) Aclose
       = (finish 0 ((dispatch_message \<lparr>code = 17, payload = [0, 3, 65, 66, 67, 0, 1, 117,
           0, 1, 102, 1, 0, 1, 120, 0, 0, 0, 5]\<rparr> (register_listener MSG_SEARCH_RESULT 0
           (SoulseekClient_init\<lparr>conn := True\<rparr>)\<lparr>sent := [[0, 0, 0, 6, 16, 0,
           3, 97, 98, 99]]\<rparr>)), \<lparr>gen = Suspended 30, queue = [], printed =
           []\<rparr>), NoOutput)" by blast
  from t3 have a5: "0 \<notin> set (listeners_for MSG_SEARCH_RESULT (fst (finish 0
      ((dispatch_message \<lparr>code = 17, payload = [0, 3, 65, 66, 67, 0, 1, 117, 0, 1, 102, 1,
      0, 1, 120, 0, 0, 0, 5]\<rparr> (register_listener MSG_SEARCH_RESULT 0
      (SoulseekClient_init\<lparr>conn := True\<rparr>)\<lparr>sent := [[0, 0, 0, 6, 16, 0, 3, 97,
      98, 99]]\<rparr>)), \<lparr>gen = Suspended 30, queue = [], printed = []\<rparr>))))"
    by blast
  from t4 start be have a6: "search_step ascii_lower 0 [55296] 30
      ((SoulseekClient_init\<lparr>conn := True\<rparr>), search_init) (Anext 0 0)
       = (finish 0 (register_listener MSG_SEARCH_RESULT 0 (SoulseekClient_init\<lparr>conn :=
           True\<rparr>), search_init),
          Raise UnicodeEncodeError)" by blast
  from t5 start bs se have a7:
    "search_step ascii_lower 0 [97, 98, 99] 30 (SoulseekClient_init, search_init) (Anext 0 0)
       = (finish 0 ((register_listener MSG_SEARCH_RESULT 0 SoulseekClient_init), search_init),
           Raise ConnectionClosedError)" by blast
  from t5 have a8:
    "0 \<notin> set (listeners_for MSG_SEARCH_RESULT (fst (finish 0 ((register_listener
        MSG_SEARCH_RESULT 0 SoulseekClient_init), search_init))))"
    by blast
  show ?thesis
    by (intro conjI) (fact fresh start r1 g a1 a2 r2 a3 r3 a4 a5 r4 be a6 r5 bs se a7 a8)+
qed

section \<open>Properties of the download manager\<close>

lemma download_file_eq:
  "download_file usr rp host port dest m =
     (\<lparr>h_id = uuid4 m (uuid4_calls m), h_user = usr, h_remote_path = rp,
       h_destination = dest, h_status = QUEUED, h_total_bytes = None, h_bytes_received = 0,
       h_error = None,
       h_future = Some \<lparr>t_host = host, t_port = port, t_state = TaskPending\<rparr>\<rparr>,
      m\<lparr>uuid4_calls := Suc (uuid4_calls m),
        active := (active m)(uuid4 m (uuid4_calls m) \<mapsto>
          \<lparr>h_id = uuid4 m (uuid4_calls m), h_user = usr, h_remote_path = rp,
           h_destination = dest, h_status = QUEUED, h_total_bytes = None,
           h_bytes_received = 0, h_error = None,
           h_future = Some \<lparr>t_host = host, t_port = port, t_state =
               TaskPending\<rparr>\<rparr>),
        emitted := emitted m @
          [download_started
            \<lparr>h_id = uuid4 m (uuid4_calls m), h_user = usr, h_remote_path = rp,
             h_destination = dest, h_status = QUEUED, h_total_bytes = None,
             h_bytes_received = 0, h_error = None, h_future = None\<rparr>]\<rparr>)"
  by (simp add: download_file_def Let_def)

lemma download_folder_files_eq:
  "download_folder_files usr host port dd rf fs m =
     (map (\<lambda>(n, f). handle_for usr rf host port dd (uuid4 m n) f)
        (enumerate (uuid4_calls m) fs),
      m\<lparr>uuid4_calls := uuid4_calls m + length fs,
        active := fold (\<lambda>h act. act(h_id h \<mapsto> h))
          (map (\<lambda>(n, f). handle_for usr rf host port dd (uuid4 m n) f)
            (enumerate (uuid4_calls m) fs)) (active m),
        emitted := emitted m @ map (\<lambda>h. download_started (h\<lparr>h_future :=
            None\<rparr>))
          (map (\<lambda>(n, f). handle_for usr rf host port dd (uuid4 m n) f)
            (enumerate (uuid4_calls m) fs))\<rparr>)"
proof (induction fs arbitrary: m)
  case Nil
  then show ?case by simp
next
  case (Cons f fs)
  show ?case
    by (simp add: download_file_eq Cons.IH Let_def handle_for_def del: fun_upd_apply)
qed

lemma download_folder_eq:
  "download_folder usr fp host port results dd m =
     (map (\<lambda>(n, f). handle_for usr fp host port dd (uuid4 m n) f)
        (enumerate (uuid4_calls m) (requested_files usr fp results)),
      m\<lparr>uuid4_calls := uuid4_calls m + length (requested_files usr fp results),
        active := fold (\<lambda>h act. act(h_id h \<mapsto> h))
          (map (\<lambda>(n, f). handle_for usr fp host port dd (uuid4 m n) f)
            (enumerate (uuid4_calls m) (requested_files usr fp results))) (active m),
        emitted := emitted m @ map (\<lambda>h. download_started (h\<lparr>h_future :=
            None\<rparr>))
          (map (\<lambda>(n, f). handle_for usr fp host port dd (uuid4 m n) f)
            (enumerate (uuid4_calls m) (requested_files usr fp results)))\<rparr>)"
proof (induction results arbitrary: m)
  case Nil
  then show ?case by (simp add: requested_files_def)
next
  case (Cons r results)
  show ?case
  proof (cases "user r = usr \<and> folder r = fp")
    case False
    then have "requested_files usr fp (r # results) = requested_files usr fp results"
      by (auto simp add: requested_files_def)
    then show ?thesis using False Cons.IH [of m] by auto
  next
    case True
    have rq: "requested_files usr fp (r # results) = files r @ requested_files usr fp results"
      using True by (simp add: requested_files_def)
    show ?thesis
      using True
      by (simp add: rq download_folder_files_eq Cons.IH enumerate_append_eq add.assoc del:
          fun_upd_apply)
  qed
qed

text \<open>
  C8. For any list of results, \<open>download_folder\<close> returns one handle for every file
      record
  of the results whose user and folder are the given ones, in order, and nothing for the
  other results. Each handle is the one a \<open>download_file\<close> call leaves for that file:
      its
  own identifier (the next one \<open>uuid4\<close> gives), the given user, the remote path
  \<open>folder/filename\<close> with \<open>//\<close> replaced, the destination
      \<open>destination_dir/filename\<close>, status
  queued, and a task on the given host and port. \<open>uuid4\<close> is called and
      \<open>download_started\<close>
  emitted once per such file, each handle is stored under its identifier, and when no
  result has the given user and folder the call returns the empty list and leaves the
  manager as it was. No statement of \<open>download_folder\<close> raises.
\<close>

theorem download_folder_issues:
  "fst (download_folder usr fp host port results dd m)
     = map (\<lambda>(n, f). handle_for usr fp host port dd (uuid4 m n) f)
         (enumerate (uuid4_calls m) (requested_files usr fp results))
   \<and> length (fst (download_folder usr fp host port results dd m))
     = length (requested_files usr fp results)
   \<and> emitted (snd (download_folder usr fp host port results dd m))
     = emitted m @ map (\<lambda>h. download_started (h\<lparr>h_future := None\<rparr>))
         (fst (download_folder usr fp host port results dd m))
   \<and> uuid4_calls (snd (download_folder usr fp host port results dd m))
     = uuid4_calls m + length (requested_files usr fp results)
   \<and> active (snd (download_folder usr fp host port results dd m))
     = fold (\<lambda>h act. act(h_id h \<mapsto> h))
         (fst (download_folder usr fp host port results dd m)) (active m)
   \<and> ((\<forall>r \<in> set results. user r \<noteq> usr \<or> folder r \<noteq> fp)
       \<longrightarrow>
        download_folder usr fp host port results dd m = ([], m))"
proof -
  have none: "requested_files usr fp results = []"
    if "\<forall>r \<in> set results. user r \<noteq> usr \<or> folder r \<noteq> fp"
  proof -
    have "filter (\<lambda>r. user r = usr \<and> folder r = fp) results = []"
      using that by (auto simp add: filter_empty_conv)
    then show ?thesis by (simp add: requested_files_def)
  qed
  show ?thesis
    by (auto simp add: download_folder_eq none simp del: fun_upd_apply)
qed

theorem download_folder_issues_witness:
  "fst (download_folder [117] [102, 47] [104] 2234
          [\<lparr>query = [113], user = [117], folder = [102, 47], files = [\<lparr>filename =
              [120], fsize = 5, bitrate = None, length_seconds = None\<rparr>, \<lparr>filename =
              [121], fsize = 6, bitrate = None, length_seconds = None\<rparr>], user_host = None,
              user_port = None, raw_payload = None\<rparr>,
           \<lparr>query = [113], user = [118], folder = [102, 47], files = [\<lparr>filename =
               [122], fsize = 7, bitrate = None, length_seconds = None\<rparr>], user_host = None,
               user_port = None, raw_payload = None\<rparr>,
           \<lparr>query = [113], user = [117], folder = [103], files = [\<lparr>filename = [119],
               fsize = 8, bitrate = None, length_seconds = None\<rparr>], user_host = None,
               user_port = None, raw_payload = None\<rparr>,
           \<lparr>query = [113], user = [117], folder = [102, 47], files = [\<lparr>filename =
               [97, 47, 47, 98], fsize = 9, bitrate = None, length_seconds = None\<rparr>],
               user_host = None, user_port = None, raw_payload = None\<rparr>]
          [100] (DownloadManager_init (\<lambda>n. [n])))
     = [\<lparr>h_id = [0], h_user = [117], h_remote_path = [102, 47, 120], h_destination = [100,
         47, 120], h_status = QUEUED, h_total_bytes = None, h_bytes_received = 0, h_error = None,
         h_future = Some \<lparr>t_host = [104], t_port = 2234, t_state =
         TaskPending\<rparr>\<rparr>,
        \<lparr>h_id = [1], h_user = [117], h_remote_path = [102, 47, 121], h_destination = [100,
            47, 121], h_status = QUEUED, h_total_bytes = None, h_bytes_received = 0, h_error =
            None, h_future = Some \<lparr>t_host = [104], t_port = 2234, t_state =
            TaskPending\<rparr>\<rparr>,
        \<lparr>h_id = [2], h_user = [117], h_remote_path = [102, 47, 97, 47, 98], h_destination =
            [100, 47, 97, 47, 47, 98], h_status = QUEUED, h_total_bytes = None, h_bytes_received =
            0, h_error = None, h_future = Some \<lparr>t_host = [104], t_port = 2234, t_state =
            TaskPending\<rparr>\<rparr>]
   \<and> uuid4_calls (snd (download_folder [117] [102, 47] [104] 2234
          [\<lparr>query = [113], user = [117], folder = [102, 47], files = [\<lparr>filename =
              [120], fsize = 5, bitrate = None, length_seconds = None\<rparr>, \<lparr>filename =
              [121], fsize = 6, bitrate = None, length_seconds = None\<rparr>], user_host = None,
              user_port = None, raw_payload = None\<rparr>,
           \<lparr>query = [113], user = [118], folder = [102, 47], files = [\<lparr>filename =
               [122], fsize = 7, bitrate = None, length_seconds = None\<rparr>], user_host = None,
               user_port = None, raw_payload = None\<rparr>,
           \<lparr>query = [113], user = [117], folder = [103], files = [\<lparr>filename = [119],
               fsize = 8, bitrate = None, length_seconds = None\<rparr>], user_host = None,
               user_port = None, raw_payload = None\<rparr>,
           \<lparr>query = [113], user = [117], folder = [102, 47], files = [\<lparr>filename =
               [97, 47, 47, 98], fsize = 9, bitrate = None, length_seconds = None\<rparr>],
               user_host = None, user_port = None, raw_payload = None\<rparr>]
          [100] (DownloadManager_init (\<lambda>n. [n])))) = 3
   \<and> user \<lparr>query = [113], user = [118], folder = [102, 47], files = [\<lparr>filename
       = [122], fsize = 7, bitrate = None, length_seconds = None\<rparr>], user_host = None,
       user_port = None, raw_payload = None\<rparr> \<noteq> [117]
   \<and> folder \<lparr>query = [113], user = [117], folder = [103], files = [\<lparr>filename =
       [119], fsize = 8, bitrate = None, length_seconds = None\<rparr>], user_host = None,
       user_port = None, raw_payload = None\<rparr> \<noteq> [102, 47]
   \<and> download_folder [117] [102, 47] [104] 2234
          [\<lparr>query = [113], user = [118], folder = [102, 47], files = [\<lparr>filename =
              [122], fsize = 7, bitrate = None, length_seconds = None\<rparr>], user_host = None,
              user_port = None, raw_payload = None\<rparr>,
           \<lparr>query = [113], user = [117], folder = [103], files = [\<lparr>filename = [119],
               fsize = 8, bitrate = None, length_seconds = None\<rparr>], user_host = None,
               user_port = None, raw_payload = None\<rparr>]
          [100] (DownloadManager_init (\<lambda>n. [n]))
     = ([], (DownloadManager_init (\<lambda>n. [n])))"
proof -
  note t1 = download_folder_issues [of "[117]" "[102, 47]" "[104]" 2234
      "[\<lparr>query = [113], user = [117], folder = [102, 47], files = [\<lparr>filename =
          [120], fsize = 5, bitrate = None, length_seconds = None\<rparr>, \<lparr>filename =
          [121], fsize = 6, bitrate = None, length_seconds = None\<rparr>], user_host = None,
          user_port = None, raw_payload = None\<rparr>,
        \<lparr>query = [113], user = [118], folder = [102, 47], files = [\<lparr>filename =
            [122], fsize = 7, bitrate = None, length_seconds = None\<rparr>], user_host = None,
            user_port = None, raw_payload = None\<rparr>,
        \<lparr>query = [113], user = [117], folder = [103], files = [\<lparr>filename = [119],
            fsize = 8, bitrate = None, length_seconds = None\<rparr>], user_host = None, user_port
            = None, raw_payload = None\<rparr>,
        \<lparr>query = [113], user = [117], folder = [102, 47], files = [\<lparr>filename = [97,
            47, 47, 98], fsize = 9, bitrate = None, length_seconds = None\<rparr>], user_host =
            None, user_port = None, raw_payload = None\<rparr>]" "[100]" "(DownloadManager_init
            (\<lambda>n. [n]))"]
  note t2 = download_folder_issues [of "[117]" "[102, 47]" "[104]" 2234
      "[\<lparr>query = [113], user = [118], folder = [102, 47], files = [\<lparr>filename =
          [122], fsize = 7, bitrate = None, length_seconds = None\<rparr>], user_host = None,
          user_port = None, raw_payload = None\<rparr>,
        \<lparr>query = [113], user = [117], folder = [103], files = [\<lparr>filename = [119],
            fsize = 8, bitrate = None, length_seconds = None\<rparr>], user_host = None, user_port
            = None, raw_payload = None\<rparr>]" "[100]" "(DownloadManager_init (\<lambda>n.
            [n]))"]
  have rq: "requested_files [117] [102, 47]
      [\<lparr>query = [113], user = [117], folder = [102, 47], files = [\<lparr>filename = [120],
          fsize = 5, bitrate = None, length_seconds = None\<rparr>, \<lparr>filename = [121],
          fsize = 6, bitrate = None, length_seconds = None\<rparr>], user_host = None, user_port =
          None, raw_payload = None\<rparr>,
       \<lparr>query = [113], user = [118], folder = [102, 47], files = [\<lparr>filename = [122],
           fsize = 7, bitrate = None, length_seconds = None\<rparr>], user_host = None, user_port
           = None, raw_payload = None\<rparr>,
       \<lparr>query = [113], user = [117], folder = [103], files = [\<lparr>filename = [119],
           fsize = 8, bitrate = None, length_seconds = None\<rparr>], user_host = None, user_port
           = None, raw_payload = None\<rparr>,
       \<lparr>query = [113], user = [117], folder = [102, 47], files = [\<lparr>filename = [97,
           47, 47, 98], fsize = 9, bitrate = None, length_seconds = None\<rparr>], user_host =
           None, user_port = None, raw_payload = None\<rparr>]
    = [\<lparr>filename = [120], fsize = 5, bitrate = None, length_seconds = None\<rparr>,
       \<lparr>filename = [121], fsize = 6, bitrate = None, length_seconds = None\<rparr>,
       \<lparr>filename = [97, 47, 47, 98], fsize = 9, bitrate = None, length_seconds =
           None\<rparr>]"
    by (simp add: requested_files_def)
  have a: "fst (download_folder [117] [102, 47] [104] 2234
          [\<lparr>query = [113], user = [117], folder = [102, 47], files = [\<lparr>filename =
              [120], fsize = 5, bitrate = None, length_seconds = None\<rparr>, \<lparr>filename =
              [121], fsize = 6, bitrate = None, length_seconds = None\<rparr>], user_host = None,
              user_port = None, raw_payload = None\<rparr>,
           \<lparr>query = [113], user = [118], folder = [102, 47], files = [\<lparr>filename =
               [122], fsize = 7, bitrate = None, length_seconds = None\<rparr>], user_host = None,
               user_port = None, raw_payload = None\<rparr>,
           \<lparr>query = [113], user = [117], folder = [103], files = [\<lparr>filename = [119],
               fsize = 8, bitrate = None, length_seconds = None\<rparr>], user_host = None,
               user_port = None, raw_payload = None\<rparr>,
           \<lparr>query = [113], user = [117], folder = [102, 47], files = [\<lparr>filename =
               [97, 47, 47, 98], fsize = 9, bitrate = None, length_seconds = None\<rparr>],
               user_host = None, user_port = None, raw_payload = None\<rparr>]
          [100] (DownloadManager_init (\<lambda>n. [n])))
     = [\<lparr>h_id = [0], h_user = [117], h_remote_path = [102, 47, 120], h_destination = [100,
         47, 120], h_status = QUEUED, h_total_bytes = None, h_bytes_received = 0, h_error = None,
         h_future = Some \<lparr>t_host = [104], t_port = 2234, t_state =
         TaskPending\<rparr>\<rparr>,
        \<lparr>h_id = [1], h_user = [117], h_remote_path = [102, 47, 121], h_destination = [100,
            47, 121], h_status = QUEUED, h_total_bytes = None, h_bytes_received = 0, h_error =
            None, h_future = Some \<lparr>t_host = [104], t_port = 2234, t_state =
            TaskPending\<rparr>\<rparr>,
        \<lparr>h_id = [2], h_user = [117], h_remote_path = [102, 47, 97, 47, 98], h_destination =
            [100, 47, 97, 47, 47, 98], h_status = QUEUED, h_total_bytes = None, h_bytes_received =
            0, h_error = None, h_future = Some \<lparr>t_host = [104], t_port = 2234, t_state =
            TaskPending\<rparr>\<rparr>]"
    using t1 by (simp add: rq handle_for_def DownloadManager_init_def del: fun_upd_apply)
  have b: "uuid4_calls (snd (download_folder [117] [102, 47] [104] 2234
          [\<lparr>query = [113], user = [117], folder = [102, 47], files = [\<lparr>filename =
              [120], fsize = 5, bitrate = None, length_seconds = None\<rparr>, \<lparr>filename =
              [121], fsize = 6, bitrate = None, length_seconds = None\<rparr>], user_host = None,
              user_port = None, raw_payload = None\<rparr>,
           \<lparr>query = [113], user = [118], folder = [102, 47], files = [\<lparr>filename =
               [122], fsize = 7, bitrate = None, length_seconds = None\<rparr>], user_host = None,
               user_port = None, raw_payload = None\<rparr>,
           \<lparr>query = [113], user = [117], folder = [103], files = [\<lparr>filename = [119],
               fsize = 8, bitrate = None, length_seconds = None\<rparr>], user_host = None,
               user_port = None, raw_payload = None\<rparr>,
           \<lparr>query = [113], user = [117], folder = [102, 47], files = [\<lparr>filename =
               [97, 47, 47, 98], fsize = 9, bitrate = None, length_seconds = None\<rparr>],
               user_host = None, user_port = None, raw_payload = None\<rparr>]
          [100] (DownloadManager_init (\<lambda>n. [n])))) = 3"
    using t1 by (simp add: rq DownloadManager_init_def del: fun_upd_apply)
  have c: "download_folder [117] [102, 47] [104] 2234
          [\<lparr>query = [113], user = [118], folder = [102, 47], files = [\<lparr>filename =
              [122], fsize = 7, bitrate = None, length_seconds = None\<rparr>], user_host = None,
              user_port = None, raw_payload = None\<rparr>,
           \<lparr>query = [113], user = [117], folder = [103], files = [\<lparr>filename = [119],
               fsize = 8, bitrate = None, length_seconds = None\<rparr>], user_host = None,
               user_port = None, raw_payload = None\<rparr>]
          [100] (DownloadManager_init (\<lambda>n. [n]))
     = ([], (DownloadManager_init (\<lambda>n. [n])))"
    using t2 by simp
  show ?thesis using a b c by simp
qed




end
